(* ===== verification/Prelude.thy ===== *)
theory Prelude
  imports Main
begin

text \<open>
  Shared vocabulary of the development.

  The C++ programs are modelled as state-passing programs. A program takes the world it runs in
  and yields an outcome: it returns a value, it stops with a fault (an exception that nobody
  catches, or a read of an indeterminate variable), or it is stuck in a library call that never
  returns. Every outcome carries the world at that moment, so that a statement about
  \<open>final_world\<close> of all outcomes is a statement about every moment of a run.
\<close>

named_theorems prog_simps
named_theorems exec_simps
named_theorems parse_simps

type_synonym bytes = string

datatype errno = EAGAIN | ETERM | EFSM | EFAULT | ENOMEM | Errno int

datatype fault =
    Zmq_error errno
  | Indeterminate_read
  | Signed_overflow
  | Launch_failed
  | Null_dereference
  | Assertion_failed
  | Terminated
  | Use_after_delete

datatype ('a, 'w) outcome =
    Ret 'a 'w
  | Throw fault 'w
  | Stuck 'w

type_synonym ('w, 'a) prog = "'w \<Rightarrow> ('a, 'w) outcome"

primrec final_world :: "('a, 'w) outcome \<Rightarrow> 'w" where
  "final_world (Ret a w) = w"
| "final_world (Throw e w) = w"
| "final_world (Stuck w) = w"

definition returnM :: "'a \<Rightarrow> ('w, 'a) prog" where
  "returnM a w = Ret a w"

definition throwM :: "fault \<Rightarrow> ('w, 'a) prog" where
  "throwM e w = Throw e w"

definition bindM :: "('w, 'a) prog \<Rightarrow> ('a \<Rightarrow> ('w, 'b) prog) \<Rightarrow> ('w, 'b) prog" where
  "bindM p f w = (case p w of Ret a w' \<Rightarrow> f a w' | Throw e w' \<Rightarrow> Throw e w' | Stuck w' \<Rightarrow> Stuck w')"

definition thenM :: "('w, unit) prog \<Rightarrow> ('w, 'b) prog \<Rightarrow> ('w, 'b) prog" where
  "thenM p q = bindM p (\<lambda>_. q)"

lemmas [prog_simps] = returnM_def throwM_def bindM_def thenM_def

text \<open>A definite value: reading a variable that was never assigned is a fault.\<close>

definition readM :: "'a option \<Rightarrow> ('w, 'a) prog" where
  "readM x = (case x of Some a \<Rightarrow> returnM a | None \<Rightarrow> throwM Indeterminate_read)"

lemma readM_simps [prog_simps]:
  "readM (Some a) = returnM a"
  "readM None = throwM Indeterminate_read"
  by (simp_all add: readM_def)

text \<open>The outcome alone: what a run yields, whatever the world it leaves behind.\<close>

primrec forget :: "('a, 'w) outcome \<Rightarrow> ('a, unit) outcome" where
  "forget (Ret a w) = Ret a ()"
| "forget (Throw e w) = Throw e ()"
| "forget (Stuck w) = Stuck ()"

section \<open>Laws of program composition\<close>

lemma bindM_return_left [simp]: "bindM (returnM a) f = f a"
  by (rule ext) (simp add: prog_simps)

lemma bindM_return_right [simp]: "bindM p returnM = p"
  by (rule ext) (simp add: prog_simps split: outcome.splits)

lemma bindM_assoc: "bindM (bindM p f) g = bindM p (\<lambda>a. bindM (f a) g)"
  by (rule ext) (simp add: prog_simps split: outcome.splits)

lemma bindM_throw [simp]: "bindM (throwM e) f = throwM e"
  by (rule ext) (simp add: prog_simps)

lemma bindM_cong [fundef_cong]:
  assumes "w = w'" and "p w' = p' w'"
    and "\<And>a w1. p' w' = Ret a w1 \<Longrightarrow> f a w1 = f' a w1"
  shows "bindM p f w = bindM p' f' w'"
  using assms by (simp add: bindM_def split: outcome.splits)

text \<open>Running the first step: the rules of \<open>exec_simps\<close> execute a program step by step.\<close>

lemma bindM_Ret: "p w = Ret a w' \<Longrightarrow> bindM p f w = f a w'"
  by (simp add: bindM_def)

lemma thenM_Ret: "p w = Ret () w' \<Longrightarrow> thenM p q w = q w'"
  by (simp add: thenM_def bindM_def)

lemmas [exec_simps] = returnM_def

lemma bindM_Ret_iff:
  "bindM p f w = Ret b w'' \<longleftrightarrow> (\<exists>a w'. p w = Ret a w' \<and> f a w' = Ret b w'')"
  by (auto simp: bindM_def split: outcome.splits)

lemma bindM_RetE [elim]:
  assumes "bindM p f w = Ret b w''"
  obtains a w' where "p w = Ret a w'" and "f a w' = Ret b w''"
  using assms by (auto simp: bindM_Ret_iff)

section \<open>Invariants of programs\<close>

text \<open>A predicate is preserved when it holds of the final world, whatever the outcome.\<close>

definition preserves :: "('w \<Rightarrow> bool) \<Rightarrow> ('w, 'a) prog \<Rightarrow> bool" where
  "preserves I p \<longleftrightarrow> (\<forall>w. I w \<longrightarrow> I (final_world (p w)))"

lemma preservesI: "(\<And>w. I w \<Longrightarrow> I (final_world (p w))) \<Longrightarrow> preserves I p"
  by (simp add: preserves_def)

lemma preservesD: "preserves I p \<Longrightarrow> I w \<Longrightarrow> I (final_world (p w))"
  by (simp add: preserves_def)

lemma preserves_RetD: "preserves I p \<Longrightarrow> I w \<Longrightarrow> p w = Ret a w' \<Longrightarrow> I w'"
  by (drule (1) preservesD) simp

lemma preserves_return [intro, simp]: "preserves I (returnM a)"
  by (simp add: preserves_def prog_simps)

lemma preserves_throw [intro, simp]: "preserves I (throwM e)"
  by (simp add: preserves_def prog_simps)

lemma preserves_bind [intro]:
  assumes "preserves I p" and "\<And>a. preserves I (f a)"
  shows "preserves I (bindM p f)"
proof (rule preservesI)
  fix w assume "I w"
  then have "I (final_world (p w))" using assms(1) by (rule preservesD[rotated])
  then show "I (final_world (bindM p f w))"
    using assms(2) by (cases "p w") (auto simp: bindM_def dest: preservesD)
qed

lemma preserves_then [intro]:
  "preserves I p \<Longrightarrow> preserves I q \<Longrightarrow> preserves I (thenM p q)"
  by (simp add: thenM_def preserves_bind)

lemma preserves_read [intro, simp]: "preserves I (readM x)"
  by (cases x) (simp_all add: prog_simps preserves_def)

lemma preserves_if [intro]:
  "(b \<Longrightarrow> preserves I p) \<Longrightarrow> (\<not> b \<Longrightarrow> preserves I q) \<Longrightarrow> preserves I (if b then p else q)"
  by simp

section \<open>Lists\<close>

lemma takeWhile_append_all:
  assumes "\<forall>x\<in>set xs. P x" and "ys = [] \<or> \<not> P (hd ys)"
  shows "takeWhile P (xs @ ys) = xs" and "dropWhile P (xs @ ys) = ys"
proof -
  from assms(2) have ys: "takeWhile P ys = []" "dropWhile P ys = ys"
    by (cases ys; simp)+
  from assms(1) show "takeWhile P (xs @ ys) = xs"
    by (simp add: ys(1))
  from assms(1) show "dropWhile P (xs @ ys) = ys"
    by (simp add: ys(2))
qed

end
