(* ===== verification/Zmq.thy ===== *)
theory Zmq
  imports Prelude
begin

text \<open>
  The C++ binding of ZeroMQ (zmq.hpp): the operations of \<open>socket_t\<close>, \<open>poll\<close> and \<open>proxy\<close>.

  The C library below the binding is a parameter, held in the fields of the world that no
  operation of the binding assigns: \<open>api\<close> gives the return value of each call as an arbitrary
  function of everything that happened before it (or says that it blocks for ever), and
  \<open>inbox\<close> holds what each socket's receive calls answer, in order: a message part with its
  "more" flag, or an error. A receive with nothing left to answer blocks for ever. The field
  \<open>trace\<close> records every call and its result in the order of the run.
\<close>

section \<open>The C library as a parameter\<close>

datatype sockopt = ZMQ_SUBSCRIBE | ZMQ_RCVTIMEO | ZMQ_RCVMORE | ZMQ_IDENTITY | ZMQ_OTHER int

datatype socktype = ZMQ_PUB | ZMQ_SUB | ZMQ_REQ | ZMQ_REP | ZMQ_PUSH | ZMQ_PULL | ZMQ_PAIR

datatype api_call =
    Zmq_socket socktype
  | Zmq_setsockopt sockopt bytes
  | Zmq_getsockopt sockopt
  | Zmq_bind string
  | Zmq_unbind string
  | Zmq_connect string
  | Zmq_disconnect string
  | Zmq_send bytes bool
  | Zmq_msg_send bytes bool
  | Zmq_close

text \<open>An answer is the value the C function returns and \<open>zmq_errno()\<close> after it.\<close>

datatype answer = Answer int errno | Blocks

datatype delivery = Delivered bytes bool | Refused errno

datatype 'n event =
    Called 'n api_call int
  | Received 'n bytes bool
  | Nothing_received 'n errno

record 'n net =
  inbox :: "'n \<Rightarrow> delivery list"
  api :: "'n event list \<Rightarrow> 'n \<Rightarrow> api_call \<Rightarrow> answer"
  live :: "'n \<Rightarrow> bool"
  trace :: "'n event list"

definition zmq_call :: "'n \<Rightarrow> api_call \<Rightarrow> (('n, 'm) net_scheme, int \<times> errno) prog" where
  "zmq_call n c w = (case api w (trace w) n c of
       Blocks \<Rightarrow> Stuck w
     | Answer rc e \<Rightarrow> Ret (rc, e) (w\<lparr>trace := trace w @ [Called n c rc]\<rparr>))"

section \<open>Errors\<close>

definition error_t :: "errno \<Rightarrow> fault" where
  "error_t e = Zmq_error e"

text \<open>The pattern \<open>if (rc != 0) throw error_t ();\<close>\<close>

definition throw_nonzero :: "int \<times> errno \<Rightarrow> ('w, unit) prog" where
  "throw_nonzero a = (case a of (rc, e) \<Rightarrow> if rc \<noteq> 0 then throwM (error_t e) else returnM ())"

definition zmq_poll :: "int \<times> errno \<Rightarrow> ('w, int) prog" where
  "zmq_poll a = (case a of (rc, e) \<Rightarrow> if rc < 0 then throwM (error_t e) else returnM rc)"

definition zmq_proxy :: "int \<times> errno \<Rightarrow> ('w, unit) prog" where
  "zmq_proxy a = throw_nonzero a"

section \<open>Sockets\<close>

text \<open>The constructor: the returned pointer is 0 for NULL.\<close>

definition socket_open :: "'n \<Rightarrow> socktype \<Rightarrow> (('n, 'm) net_scheme, unit) prog" where
  "socket_open n ty = bindM (zmq_call n (Zmq_socket ty)) (\<lambda>(ptr, e) w.
     if ptr = 0 then throwM (error_t e) w else Ret () (w\<lparr>live := (live w)(n := True)\<rparr>))"

definition socket_close :: "'n \<Rightarrow> (('n, 'm) net_scheme, unit) prog" where
  "socket_close n w =
     (if \<not> live w n then Ret () w
      else bindM (zmq_call n Zmq_close) (\<lambda>(rc, e) w.
        if rc = 0 then Ret () (w\<lparr>live := (live w)(n := False)\<rparr>)
        else throwM Assertion_failed w) w)"

definition socket_setsockopt :: "'n \<Rightarrow> sockopt \<Rightarrow> bytes \<Rightarrow> (('n, 'm) net_scheme, unit) prog" where
  "socket_setsockopt n opt v = bindM (zmq_call n (Zmq_setsockopt opt v)) throw_nonzero"

definition socket_getsockopt :: "'n \<Rightarrow> sockopt \<Rightarrow> (('n, 'm) net_scheme, unit) prog" where
  "socket_getsockopt n opt = bindM (zmq_call n (Zmq_getsockopt opt)) throw_nonzero"

definition socket_bind :: "'n \<Rightarrow> string \<Rightarrow> (('n, 'm) net_scheme, unit) prog" where
  "socket_bind n addr = bindM (zmq_call n (Zmq_bind addr)) throw_nonzero"

definition socket_unbind :: "'n \<Rightarrow> string \<Rightarrow> (('n, 'm) net_scheme, unit) prog" where
  "socket_unbind n addr = bindM (zmq_call n (Zmq_unbind addr)) throw_nonzero"

definition socket_connect :: "'n \<Rightarrow> string \<Rightarrow> (('n, 'm) net_scheme, unit) prog" where
  "socket_connect n addr = bindM (zmq_call n (Zmq_connect addr)) throw_nonzero"

definition socket_disconnect :: "'n \<Rightarrow> string \<Rightarrow> (('n, 'm) net_scheme, unit) prog" where
  "socket_disconnect n addr = bindM (zmq_call n (Zmq_disconnect addr)) throw_nonzero"

definition socket_connected :: "'n \<Rightarrow> (('n, 'm) net_scheme, bool) prog" where
  "socket_connected n w = Ret (live w n) w"

text \<open>\<open>send\<close> of a buffer and of a message; the flag says \<open>ZMQ_SNDMORE\<close>.\<close>

definition socket_send_buf :: "'n \<Rightarrow> bytes \<Rightarrow> bool \<Rightarrow> (('n, 'm) net_scheme, int) prog" where
  "socket_send_buf n buf sndmore = bindM (zmq_call n (Zmq_send buf sndmore)) (\<lambda>(nbytes, e).
     if nbytes \<ge> 0 then returnM nbytes
     else if e = EAGAIN then returnM 0
     else throwM (error_t e))"

definition socket_send :: "'n \<Rightarrow> bytes \<Rightarrow> bool \<Rightarrow> (('n, 'm) net_scheme, bool) prog" where
  "socket_send n msg sndmore = bindM (zmq_call n (Zmq_msg_send msg sndmore)) (\<lambda>(nbytes, e).
     if nbytes \<ge> 0 then returnM True
     else if e = EAGAIN then returnM False
     else throwM (error_t e))"

text \<open>One answer of the receive functions of the C library: the parts arrive in order.\<close>

definition zmq_receive :: "'n \<Rightarrow> (('n, 'm) net_scheme, delivery) prog" where
  "zmq_receive n w = (case inbox w n of
       [] \<Rightarrow> Stuck w
     | d # ds \<Rightarrow> Ret d (w\<lparr>inbox := (inbox w)(n := ds),
         trace := trace w @ [case d of Delivered b m \<Rightarrow> Received n b m | Refused e \<Rightarrow> Nothing_received n e]\<rparr>))"

text \<open>
  \<open>recv\<close> into a buffer of \<open>len\<close> bytes (the C library returns the full size and stores what fits)
  and into a message. A message that received nothing stays empty.
\<close>

definition socket_recv_buf :: "'n \<Rightarrow> nat \<Rightarrow> (('n, 'm) net_scheme, int \<times> bytes) prog" where
  "socket_recv_buf n len = bindM (zmq_receive n) (\<lambda>d. case d of
       Delivered b m \<Rightarrow> returnM (int (length b), take len b)
     | Refused e \<Rightarrow> if e = EAGAIN then returnM (0, []) else throwM (error_t e))"

definition socket_recv :: "'n \<Rightarrow> (('n, 'm) net_scheme, bool \<times> bytes) prog" where
  "socket_recv n = bindM (zmq_receive n) (\<lambda>d. case d of
       Delivered b m \<Rightarrow> returnM (True, b)
     | Refused e \<Rightarrow> if e = EAGAIN then returnM (False, []) else throwM (error_t e))"

section \<open>Views of a trace\<close>

text \<open>The parts a socket sent (with their \<open>ZMQ_SNDMORE\<close> flag) and the parts it received.\<close>

fun sent_by :: "'n \<Rightarrow> 'n event \<Rightarrow> (bytes \<times> bool) list" where
  "sent_by n (Called m (Zmq_msg_send b f) rc) = (if m = n \<and> rc \<ge> 0 then [(b, f)] else [])"
| "sent_by n _ = []"

definition sent :: "'n \<Rightarrow> 'n event list \<Rightarrow> (bytes \<times> bool) list" where
  "sent n t = concat (map (sent_by n) t)"

fun received_by :: "'n \<Rightarrow> 'n event \<Rightarrow> bytes list" where
  "received_by n (Received m b f) = (if m = n then [b] else [])"
| "received_by n _ = []"

definition received :: "'n \<Rightarrow> 'n event list \<Rightarrow> bytes list" where
  "received n t = concat (map (received_by n) t)"

lemma sent_simps [simp]: "sent n [] = []" "sent n (xs @ ys) = sent n xs @ sent n ys"
  "sent n (x # xs) = sent_by n x @ sent n xs"
  by (simp_all add: sent_def)

lemma received_simps [simp]: "received n [] = []" "received n (xs @ ys) = received n xs @ received n ys"
  "received n (x # xs) = received_by n x @ received n xs"
  by (simp_all add: received_def)

text \<open>The parts of a stream grouped into the multipart messages they form.\<close>

fun messages_of :: "(bytes \<times> bool) list \<Rightarrow> bytes list list" where
  "messages_of [] = []"
| "messages_of [(b, f)] = [[b]]"
| "messages_of ((b, f) # x # xs) =
     (if f then (case messages_of (x # xs) of [] \<Rightarrow> [[b]] | m # ms \<Rightarrow> (b # m) # ms)
      else [b] # messages_of (x # xs))"

text \<open>The parts of a multipart message as they are sent: all but the last with \<open>ZMQ_SNDMORE\<close>.\<close>

definition multipart :: "bytes list \<Rightarrow> (bytes \<times> bool) list" where
  "multipart ps = map (\<lambda>p. (p, True)) (butlast ps) @ map (\<lambda>p. (p, False)) (drop (length ps - 1) ps)"

lemma multipart_simps [simp]:
  "multipart [] = []" "multipart [p] = [(p, False)]"
  "multipart (p # q # ps) = (p, True) # multipart (q # ps)"
  by (simp_all add: multipart_def)

lemma messages_of_multipart_append:
  "ps \<noteq> [] \<Longrightarrow> messages_of (multipart ps @ xs) = ps # messages_of xs"
proof (induction ps rule: induct_list012)
  case (2 p)
  then show ?case by (cases xs) auto
next
  case (3 p q ps)
  then obtain y ys where "multipart (q # ps) @ xs = y # ys"
    by (cases "multipart (q # ps) @ xs") (auto simp: multipart_def)
  with 3 show ?case by simp
qed simp

lemma messages_of_concat_multipart:
  "list_all (\<lambda>ps. ps \<noteq> []) ms \<Longrightarrow> messages_of (concat (map multipart ms)) = ms"
  by (induction ms) (auto simp: messages_of_multipart_append)

section \<open>A library that serves every call\<close>

primrec served :: "api_call \<Rightarrow> int \<Rightarrow> bool" where
  "served (Zmq_socket ty) rc \<longleftrightarrow> rc \<noteq> 0"
| "served (Zmq_setsockopt opt v) rc \<longleftrightarrow> rc = 0"
| "served (Zmq_getsockopt opt) rc \<longleftrightarrow> rc = 0"
| "served (Zmq_bind addr) rc \<longleftrightarrow> rc = 0"
| "served (Zmq_unbind addr) rc \<longleftrightarrow> rc = 0"
| "served (Zmq_connect addr) rc \<longleftrightarrow> rc = 0"
| "served (Zmq_disconnect addr) rc \<longleftrightarrow> rc = 0"
| "served (Zmq_send b f) rc \<longleftrightarrow> rc \<ge> 0"
| "served (Zmq_msg_send b f) rc \<longleftrightarrow> rc \<ge> 0"
| "served Zmq_close rc \<longleftrightarrow> rc = 0"

definition api_ok :: "('n, 'm) net_scheme \<Rightarrow> bool" where
  "api_ok w \<longleftrightarrow> (\<forall>t n c. case api w t n c of Blocks \<Rightarrow> False | Answer rc e \<Rightarrow> served c rc)"

text \<open>Such a library exists: one that answers every call at once.\<close>

definition serving_api :: "'n event list \<Rightarrow> 'n \<Rightarrow> api_call \<Rightarrow> answer" where
  "serving_api t n c = Answer (case c of Zmq_socket ty \<Rightarrow> 1 | _ \<Rightarrow> 0) EAGAIN"

lemma api_ok_serving: "api w = serving_api \<Longrightarrow> api_ok w"
  by (simp add: api_ok_def serving_api_def split: api_call.split)

text \<open>The world after a served call, and after one delivery.\<close>

definition did :: "'n \<Rightarrow> api_call \<Rightarrow> ('n, 'm) net_scheme \<Rightarrow> ('n, 'm) net_scheme" where
  "did n c w = w\<lparr>trace := trace w @
     [Called n c (case api w (trace w) n c of Answer rc e \<Rightarrow> rc | Blocks \<Rightarrow> 0)]\<rparr>"

definition took :: "'n \<Rightarrow> delivery \<Rightarrow> delivery list \<Rightarrow> ('n, 'm) net_scheme \<Rightarrow> ('n, 'm) net_scheme" where
  "took n d ds w = w\<lparr>inbox := (inbox w)(n := ds),
     trace := trace w @ [case d of Delivered b m \<Rightarrow> Received n b m | Refused e \<Rightarrow> Nothing_received n e]\<rparr>"

lemma api_okE:
  assumes "api_ok w"
  obtains rc e where "api w t n c = Answer rc e" and "served c rc"
  using spec[OF spec[OF spec[OF assms[unfolded api_ok_def], of t], of n], of c] that
  by (cases "api w t n c") auto

lemma did_simps [simp]:
  "inbox (did n c w) = inbox w" "api (did n c w) = api w" "live (did n c w) = live w"
  "api_ok (did n c w) = api_ok w"
  by (simp_all add: did_def api_ok_def)

lemma took_simps [simp]:
  "inbox (took n d ds w) = (inbox w)(n := ds)" "api (took n d ds w) = api w"
  "live (took n d ds w) = live w" "api_ok (took n d ds w) = api_ok w"
  by (simp_all add: took_def api_ok_def)

lemma live_update_api_ok [simp]: "api_ok (w\<lparr>live := f\<rparr>) = api_ok w"
  by (simp add: api_ok_def)

lemma sent_did [simp]:
  "api_ok w \<Longrightarrow> sent m (trace (did n (Zmq_msg_send b f) w))
     = sent m (trace w) @ (if m = n then [(b, f)] else [])"
  by (rule api_okE[of w "trace w" n "Zmq_msg_send b f"]) (auto simp: did_def)

lemma sent_did_other [simp]:
  "sent m (trace (did n (Zmq_socket ty) w)) = sent m (trace w)"
  "sent m (trace (did n (Zmq_setsockopt opt v) w)) = sent m (trace w)"
  "sent m (trace (did n (Zmq_bind addr) w)) = sent m (trace w)"
  "sent m (trace (did n (Zmq_connect addr) w)) = sent m (trace w)"
  "sent m (trace (did n Zmq_close w)) = sent m (trace w)"
  by (simp_all add: did_def)

lemma received_did [simp]: "received m (trace (did n c w)) = received m (trace w)"
  by (simp add: did_def)

lemma sent_took [simp]: "sent m (trace (took n d ds w)) = sent m (trace w)"
  by (cases d) (simp_all add: took_def)

lemma received_took [simp]: "received m (trace (took n d ds w)) = received m (trace w)
    @ (case d of Delivered b f \<Rightarrow> if m = n then [b] else [] | Refused e \<Rightarrow> [])"
  by (cases d) (simp_all add: took_def)

lemma zmq_call_ok:
  assumes "api_ok w"
  obtains rc e where "zmq_call n c w = Ret (rc, e) (did n c w)" and "served c rc"
  by (rule api_okE[OF assms, of "trace w" n c]) (auto simp: zmq_call_def did_def intro: that)

lemma socket_send_ok [prog_simps]:
  "api_ok w \<Longrightarrow> socket_send n b f w = Ret True (did n (Zmq_msg_send b f) w)"
  by (rule zmq_call_ok[of w n "Zmq_msg_send b f"]) (auto simp: socket_send_def prog_simps)

lemma call_nonzero_ok:
  assumes "api_ok w" and "\<And>rc. served c rc \<Longrightarrow> rc = 0"
  shows "bindM (zmq_call n c) throw_nonzero w = Ret () (did n c w)"
  by (rule zmq_call_ok[OF assms(1), of n c]) (simp add: throw_nonzero_def prog_simps assms(2))

lemma socket_setup_ok [prog_simps]:
  assumes "api_ok w"
  shows "socket_bind n addr w = Ret () (did n (Zmq_bind addr) w)"
    and "socket_connect n addr w = Ret () (did n (Zmq_connect addr) w)"
    and "socket_setsockopt n opt v w = Ret () (did n (Zmq_setsockopt opt v) w)"
  unfolding socket_bind_def socket_connect_def socket_setsockopt_def
  by (rule call_nonzero_ok[OF assms], simp)+

lemma socket_open_ok [prog_simps]:
  assumes "api_ok w"
  shows "socket_open n ty w = Ret () ((did n (Zmq_socket ty) w)\<lparr>live := (live w)(n := True)\<rparr>)"
  by (rule zmq_call_ok[OF assms, of n "Zmq_socket ty"]) (auto simp: socket_open_def prog_simps)

lemma socket_close_ok [prog_simps]:
  assumes "api_ok w"
  shows "socket_close n w = (if live w n
    then Ret () ((did n Zmq_close w)\<lparr>live := (live w)(n := False)\<rparr>) else Ret () w)"
  by (rule zmq_call_ok[OF assms, of n Zmq_close]) (auto simp: socket_close_def prog_simps)

lemma zmq_receive_Cons [prog_simps]:
  "inbox w n = d # ds \<Longrightarrow> zmq_receive n w = Ret d (took n d ds w)"
  by (simp add: zmq_receive_def took_def)

lemma zmq_receive_Nil [prog_simps]: "inbox w n = [] \<Longrightarrow> zmq_receive n w = Stuck w"
  by (simp add: zmq_receive_def)

lemma socket_recv_Nil [prog_simps]: "inbox w n = [] \<Longrightarrow> socket_recv n w = Stuck w"
  by (simp add: socket_recv_def prog_simps)

lemma socket_recv_Cons [prog_simps]:
  "inbox w n = d # ds \<Longrightarrow> socket_recv n w = (case d of
       Delivered b m \<Rightarrow> Ret (True, b) (took n d ds w)
     | Refused e \<Rightarrow> if e = EAGAIN then Ret (False, []) (took n d ds w)
                   else Throw (Zmq_error e) (took n d ds w))"
  by (cases d) (simp_all add: socket_recv_def prog_simps error_t_def)

section \<open>What a program may do to the trace\<close>

text \<open>
  \<open>emits_at E p w\<close>: run from the world \<open>w\<close>, the program only appends to the trace, every event
  it appends satisfies \<open>E\<close>, and the library behind the sockets stays the same. \<open>emits E p\<close> says
  so of every world, that is, whatever the library answers.
\<close>

definition emits_at :: "('n event \<Rightarrow> bool) \<Rightarrow> (('n, 'm) net_scheme, 'a) prog \<Rightarrow> ('n, 'm) net_scheme \<Rightarrow> bool" where
  "emits_at E p w \<longleftrightarrow> api (final_world (p w)) = api w
     \<and> (\<exists>t. trace (final_world (p w)) = trace w @ t \<and> (\<forall>e\<in>set t. E e))"

definition emits :: "('n event \<Rightarrow> bool) \<Rightarrow> (('n, 'm) net_scheme, 'a) prog \<Rightarrow> bool" where
  "emits E p \<longleftrightarrow> (\<forall>w. emits_at E p w)"

lemma emits_atD:
  assumes "emits_at E p w"
  obtains t where "trace (final_world (p w)) = trace w @ t" and "\<forall>e\<in>set t. E e"
    and "api (final_world (p w)) = api w"
  using assms unfolding emits_at_def by blast

lemma emitsD:
  assumes "emits E p"
  obtains t where "trace (final_world (p w)) = trace w @ t" and "\<forall>e\<in>set t. E e"
    and "api (final_world (p w)) = api w"
  by (rule emits_atD[of E p w]) (use assms that in \<open>auto simp: emits_def\<close>)

lemma emits_atI: "emits E p \<Longrightarrow> emits_at E p w"
  by (simp add: emits_def)

lemma emits_at_same: "final_world (p w) = w \<Longrightarrow> emits_at E p w"
  unfolding emits_at_def by simp

lemma emits_same: "(\<And>w. final_world (p w) = w) \<Longrightarrow> emits E p"
  by (simp add: emits_def emits_at_same)

lemma emits_return [intro, simp]: "emits E (returnM a)"
  by (rule emits_same) (simp add: prog_simps)

lemma emits_throw [intro, simp]: "emits E (throwM f)"
  by (rule emits_same) (simp add: prog_simps)

lemma emits_read [intro, simp]: "emits E (readM x)"
  by (rule emits_same) (cases x; simp add: prog_simps)

lemma emits_at_bind:
  assumes p: "emits_at E p w" and f: "\<And>a w1. p w = Ret a w1 \<Longrightarrow> emits_at E (f a) w1"
  shows "emits_at E (bindM p f) w"
proof -
  obtain t where t: "trace (final_world (p w)) = trace w @ t" "\<forall>e\<in>set t. E e"
    "api (final_world (p w)) = api w" by (rule emits_atD[OF p])
  show ?thesis
  proof (cases "p w")
    case (Ret a w1)
    obtain u where "trace (final_world (f a w1)) = trace w1 @ u" "\<forall>e\<in>set u. E e"
      "api (final_world (f a w1)) = api w1" by (rule emits_atD[OF f[OF Ret]])
    with t Ret show ?thesis
      unfolding emits_at_def by (auto simp: bindM_def)
  qed (use t in \<open>auto simp: bindM_def emits_at_def\<close>)
qed

lemma emits_bind [intro]: "emits E p \<Longrightarrow> (\<And>a. emits E (f a)) \<Longrightarrow> emits E (bindM p f)"
  unfolding emits_def by (blast intro: emits_at_bind)

lemma emits_then [intro]: "emits E p \<Longrightarrow> emits E q \<Longrightarrow> emits E (thenM p q)"
  by (simp add: thenM_def emits_bind)

lemma emits_if [intro]: "(b \<Longrightarrow> emits E p) \<Longrightarrow> (\<not> b \<Longrightarrow> emits E q) \<Longrightarrow> emits E (if b then p else q)"
  by simp

lemma emits_at_api_ok: "emits_at E p w \<Longrightarrow> api_ok (final_world (p w)) = api_ok w"
  by (auto simp: emits_at_def api_ok_def)

lemma emits_mono: "emits E p \<Longrightarrow> (\<And>e. E e \<Longrightarrow> E' e) \<Longrightarrow> emits E' p"
  unfolding emits_def emits_at_def by blast

lemma emits_zmq_call [intro]: "(\<And>rc. E (Called n c rc)) \<Longrightarrow> emits E (zmq_call n c)"
  unfolding emits_def emits_at_def zmq_call_def by (auto split: answer.splits)

lemma emits_zmq_receive [intro]:
  "(\<And>b m. E (Received n b m)) \<Longrightarrow> (\<And>e. E (Nothing_received n e)) \<Longrightarrow> emits E (zmq_receive n)"
  unfolding emits_def emits_at_def zmq_receive_def by (auto split: list.splits delivery.splits)

lemma emits_socket_send [intro]: "(\<And>rc. E (Called n (Zmq_msg_send b f) rc)) \<Longrightarrow> emits E (socket_send n b f)"
  unfolding socket_send_def by (intro emits_bind emits_zmq_call) (auto split: prod.split)

lemma emits_socket_recv [intro]:
  assumes "\<And>b m. E (Received n b m)" "\<And>e. E (Nothing_received n e)"
  shows "emits E (socket_recv n)"
  unfolding socket_recv_def using assms by (intro emits_bind emits_zmq_receive) (auto split: delivery.split)

lemma emits_throw_nonzero [intro, simp]: "emits E (throw_nonzero a)"
  by (cases a) (simp add: throw_nonzero_def)

lemma emits_socket_setup [intro]:
  "(\<And>rc. E (Called n (Zmq_bind addr) rc)) \<Longrightarrow> emits E (socket_bind n addr)"
  "(\<And>rc. E (Called n (Zmq_connect addr) rc)) \<Longrightarrow> emits E (socket_connect n addr)"
  "(\<And>rc. E (Called n (Zmq_setsockopt opt v) rc)) \<Longrightarrow> emits E (socket_setsockopt n opt v)"
  unfolding socket_bind_def socket_connect_def socket_setsockopt_def
  by (intro emits_bind emits_zmq_call emits_throw_nonzero; simp)+

lemma emits_socket_open [intro]:
  assumes "\<And>rc. E (Called n (Zmq_socket ty) rc)" shows "emits E (socket_open n ty)"
  using assms
  by (auto simp: emits_def emits_at_def socket_open_def zmq_call_def prog_simps split: answer.splits)

lemma emits_socket_close [intro]:
  assumes "\<And>rc. E (Called n Zmq_close rc)" shows "emits E (socket_close n)"
  using assms
  by (auto simp: emits_def emits_at_def socket_close_def zmq_call_def prog_simps split: answer.splits)

text \<open>
  A receive takes one answer from the inbox of its socket, a call takes none: the number of
  answers left bounds every loop that receives.
\<close>

lemma zmq_call_inbox: "zmq_call n c w = Ret a w' \<Longrightarrow> inbox w' = inbox w"
  by (auto simp: zmq_call_def split: answer.splits)

lemma socket_send_frame: "socket_send n b f w = Ret a w' \<Longrightarrow> \<exists>t. w' = w\<lparr>trace := t\<rparr>"
  by (auto simp: socket_send_def prog_simps zmq_call_def split: answer.splits if_splits)

lemma socket_send_inbox: "socket_send n b f w = Ret a w' \<Longrightarrow> inbox w' = inbox w"
  by (auto simp: socket_send_def prog_simps zmq_call_def split: answer.splits if_splits)

lemma socket_recv_inbox:
  "socket_recv n w = Ret a w' \<Longrightarrow> \<exists>d. inbox w n = d # inbox w' n \<and> (\<forall>m. m \<noteq> n \<longrightarrow> inbox w' m = inbox w m)"
  by (auto simp: socket_recv_def prog_simps zmq_receive_def split: list.splits delivery.splits if_splits)

lemma socket_recv_shrinks: "socket_recv n w = Ret a w' \<Longrightarrow> length (inbox w' n) < length (inbox w n)"
  by (drule socket_recv_inbox) auto

text \<open>
  Locating an event in a sequence of two programs: an event that the first cannot emit happens
  in the second, after the first has returned.
\<close>

lemma bind_locate:
  assumes p: "emits E p" and f: "\<And>a. emits E' (f a)" and x: "\<not> E x"
    and tr: "trace (final_world (bindM p f w)) = trace w @ pre @ x # post"
  obtains a w1 d pre' where "p w = Ret a w1" "trace w1 = trace w @ d" "pre = d @ pre'"
    "trace (final_world (f a w1)) = trace w1 @ pre' @ x # post"
proof -
  obtain d where d: "trace (final_world (p w)) = trace w @ d" "\<forall>e\<in>set d. E e" by (rule emitsD[OF p])
  with x have nx: "x \<notin> set d" by blast
  show thesis
  proof (cases "p w")
    case (Ret a w1)
    obtain u where u: "trace (final_world (f a w1)) = trace w1 @ u" by (rule emitsD[OF f])
    from Ret u d tr have eq: "d @ u = pre @ x # post" by (simp add: bindM_def)
    with nx obtain pre' where "pre = d @ pre'" "u = pre' @ x # post"
      by (auto simp: append_eq_append_conv2 append_eq_Cons_conv Cons_eq_append_conv)
    with that[of a w1 d pre'] Ret u d(1) show thesis by simp
  qed (use d tr nx in \<open>auto simp: bindM_def\<close>)
qed

end
