(* ===== verification/Streams.thy ===== *)
theory Streams
  imports Prelude Complex_Main
begin

text \<open>
  The parts of the C++ standard library the programs exchange numbers with: \<open>std::to_string\<close>,
  formatted extraction from a string stream (\<open>operator>>\<close> into \<open>int\<close>, \<open>bool\<close>,
  \<open>std::string\<close> and \<open>double\<close>) and formatted insertion of a \<open>double\<close>.

  A stream is what is left to read and its fail bit. A variable that an extraction may leave
  alone is an option, \<open>None\<close> when it was never assigned: an extraction on a failed stream, or on
  one with nothing but white space left, does not touch its target; an extraction that finds no
  number stores zero, and one that finds a number out of range stores the nearest bound; both
  set the fail bit. The end-of-file bit needs no field: it is set only when nothing is left.
\<close>

section \<open>Decimal numerals\<close>

definition digit_char :: "nat \<Rightarrow> char" where
  "digit_char d = char_of (48 + d)"

definition is_digit :: "char \<Rightarrow> bool" where
  "is_digit c \<longleftrightarrow> 48 \<le> (of_char c :: nat) \<and> (of_char c :: nat) \<le> 57"

definition digit_val :: "char \<Rightarrow> nat" where
  "digit_val c = of_char c - 48"

fun show_nat :: "nat \<Rightarrow> string" where
  "show_nat n = (if n < 10 then [digit_char n] else show_nat (n div 10) @ [digit_char (n mod 10)])"

declare show_nat.simps [simp del]

text \<open>\<open>std::to_string(int)\<close>, and \<open>std::to_string\<close> of a \<open>bool\<close>, which is promoted to \<open>int\<close>.\<close>

definition to_string :: "int \<Rightarrow> string" where
  "to_string i = (if i < 0 then CHR ''-'' # show_nat (nat (- i)) else show_nat (nat i))"

definition to_string_bool :: "bool \<Rightarrow> string" where
  "to_string_bool b = to_string (if b then 1 else 0)"

definition value_of :: "string \<Rightarrow> nat" where
  "value_of ds = foldl (\<lambda>v c. 10 * v + digit_val c) 0 ds"

section \<open>Extraction\<close>

record istream =
  rest :: string
  failbit :: bool

definition istringstream :: "string \<Rightarrow> istream" where
  "istringstream s = \<lparr>rest = s, failbit = False\<rparr>"

definition is_space :: "char \<Rightarrow> bool" where
  "is_space c \<longleftrightarrow> of_char c = (32 :: nat) \<or> (9 \<le> (of_char c :: nat) \<and> (of_char c :: nat) \<le> 13)"

text \<open>The sentry: skip white space; it refuses when the stream has failed or is exhausted.\<close>

definition sentry :: "istream \<Rightarrow> string option" where
  "sentry s = (let t = dropWhile is_space (rest s)
               in if failbit s \<or> t = [] then None else Some t)"

definition split_sign :: "string \<Rightarrow> bool \<times> string" where
  "split_sign t = (case t of
       [] \<Rightarrow> (False, [])
     | c # cs \<Rightarrow> if c = CHR ''-'' then (True, cs) else if c = CHR ''+'' then (False, cs)
                else (False, c # cs))"

definition int_max :: int where "int_max = 2147483647"
definition int_min :: int where "int_min = - 2147483648"

definition long_max :: int where "long_max = 9223372036854775807"
definition long_min :: int where "long_min = - 9223372036854775808"

text \<open>Extraction of a signed number with the bounds of its type: the value and whether it failed.\<close>

definition get_signed :: "int \<Rightarrow> int \<Rightarrow> string \<Rightarrow> int \<times> bool \<times> string" where
  "get_signed lo hi t =
     (let (neg, t1) = split_sign t;
          ds = takeWhile is_digit t1;
          t2 = dropWhile is_digit t1;
          v = (if neg then - int (value_of ds) else int (value_of ds))
      in if ds = [] then (0, True, t2)
         else if hi < v then (hi, True, t2)
         else if v < lo then (lo, True, t2)
         else (v, False, t2))"

definition extract_int :: "istream \<Rightarrow> int option \<Rightarrow> int option \<times> istream" where
  "extract_int s old = (case sentry s of
       None \<Rightarrow> (old, s\<lparr>failbit := True\<rparr>)
     | Some t \<Rightarrow> (let (v, bad, t') = get_signed int_min int_max t
                 in (Some v, \<lparr>rest = t', failbit = bad\<rparr>)))"

text \<open>A \<open>bool\<close> is read as a \<open>long\<close>: 0 and 1 are its values, any other number is true and fails.\<close>

definition extract_bool :: "istream \<Rightarrow> bool option \<Rightarrow> bool option \<times> istream" where
  "extract_bool s old = (case sentry s of
       None \<Rightarrow> (old, s\<lparr>failbit := True\<rparr>)
     | Some t \<Rightarrow> (let (v, bad, t') = get_signed long_min long_max t
                 in (Some (v \<noteq> 0), \<lparr>rest = t', failbit = bad \<or> (v \<noteq> 0 \<and> v \<noteq> 1)\<rparr>)))"

text \<open>A word: up to the next white space. A \<open>std::string\<close> is never indeterminate.\<close>

definition extract_string :: "istream \<Rightarrow> string \<Rightarrow> string \<times> istream" where
  "extract_string s old = (case sentry s of
       None \<Rightarrow> (old, s\<lparr>failbit := True\<rparr>)
     | Some t \<Rightarrow> (takeWhile (\<lambda>c. \<not> is_space c) t,
                  \<lparr>rest = dropWhile (\<lambda>c. \<not> is_space c) t, failbit = False\<rparr>))"

section \<open>Numerals read back\<close>

lemma of_char_digit [simp]: "d < 10 \<Longrightarrow> (of_char (digit_char d) :: nat) = 48 + d"
  by (simp add: digit_char_def of_char_of)

lemma is_digit_digit_char [simp]: "d < 10 \<Longrightarrow> is_digit (digit_char d)"
  by (simp add: is_digit_def)

lemma digit_val_digit_char [simp]: "d < 10 \<Longrightarrow> digit_val (digit_char d) = d"
  by (simp add: digit_val_def)

lemma is_digit_not_space: "is_digit c \<Longrightarrow> \<not> is_space c"
  by (auto simp: is_digit_def is_space_def)

lemma sign_chars [simp]:
  "\<not> is_digit (CHR ''-'')" "\<not> is_digit (CHR ''+'')" "\<not> is_digit (CHR '' '')"
  "\<not> is_space (CHR ''-'')" "is_space (CHR '' '')"
  by (simp_all add: is_digit_def is_space_def)

lemma show_nat_nonempty [simp]: "show_nat n \<noteq> []"
  by (subst show_nat.simps) simp

lemma show_nat_digits: "c \<in> set (show_nat n) \<Longrightarrow> is_digit c"
proof (induction n rule: show_nat.induct)
  case (1 n)
  then show ?case
    by (cases "n < 10") (auto simp: show_nat.simps[of n])
qed

lemma value_of_snoc [simp]: "value_of (ds @ [c]) = 10 * value_of ds + digit_val c"
  by (simp add: value_of_def)

lemma value_of_show_nat [simp]: "value_of (show_nat n) = n"
proof (induction n rule: show_nat.induct)
  case (1 n)
  show ?case
  proof (cases "n < 10")
    case True
    then show ?thesis by (simp add: show_nat.simps[of n] value_of_def)
  next
    case False
    then have "value_of (show_nat n) = 10 * (n div 10) + n mod 10"
      using 1 by (simp add: show_nat.simps[of n])
    then show ?thesis by simp
  qed
qed

lemma show_nat_head:
  obtains c cs where "show_nat n = c # cs" and "is_digit c"
  using show_nat_nonempty[of n] show_nat_digits[of _ n] by (cases "show_nat n") auto

lemma split_sign_digit: "is_digit c \<Longrightarrow> split_sign (c # cs) = (False, c # cs)"
  by (auto simp: split_sign_def is_digit_def)

text \<open>A delimiter: nothing follows, or something that cannot continue a numeral.\<close>

definition delimited :: "string \<Rightarrow> bool" where
  "delimited r \<longleftrightarrow> r = [] \<or> \<not> is_digit (hd r)"

lemma delimited_simps [simp]: "delimited []" "delimited (CHR '' '' # r)"
  by (simp_all add: delimited_def)

lemma digits_delimited:
  assumes "delimited r"
  shows "takeWhile is_digit (show_nat n @ r) = show_nat n"
    and "dropWhile is_digit (show_nat n @ r) = r"
  using takeWhile_append_all[of "show_nat n" is_digit r] assms show_nat_digits
  by (auto simp: delimited_def)

lemma get_signed_to_string:
  assumes "lo \<le> i" "i \<le> hi" "delimited r"
  shows "get_signed lo hi (to_string i @ r) = (i, False, r)"
proof (cases "i < 0")
  case True
  then show ?thesis
    using assms by (simp add: get_signed_def to_string_def split_sign_def digits_delimited)
next
  case False
  obtain c cs where hd: "show_nat (nat i) = c # cs" "is_digit c"
    by (rule show_nat_head)
  then have "split_sign (show_nat (nat i) @ r) = (False, show_nat (nat i) @ r)"
    by (simp add: split_sign_digit)
  with False assms show ?thesis
    by (simp add: get_signed_def to_string_def digits_delimited)
qed

lemma to_string_head:
  obtains c cs where "to_string i = c # cs" and "\<not> is_space c"
proof (cases "i < 0")
  case True
  then show ?thesis by (intro that[of "CHR ''-''" "show_nat (nat (- i))"]) (simp_all add: to_string_def)
next
  case False
  obtain c cs where "show_nat (nat i) = c # cs" "is_digit c"
    by (rule show_nat_head)
  with False show ?thesis
    by (intro that[of c cs]) (simp_all add: to_string_def is_digit_not_space)
qed

lemma to_string_nonempty [simp]: "to_string i \<noteq> []"
  by (rule to_string_head[of i]) simp

lemma sentry_to_string [parse_simps]:
  "sentry \<lparr>rest = to_string i @ r, failbit = False\<rparr> = Some (to_string i @ r)"
  by (rule to_string_head[of i]) (simp add: sentry_def Let_def)

lemma sentry_space [parse_simps]:
  "sentry \<lparr>rest = CHR '' '' # r, failbit = False\<rparr> = sentry \<lparr>rest = r, failbit = False\<rparr>"
  by (simp add: sentry_def)

definition int_range :: "int \<Rightarrow> bool" where
  "int_range i \<longleftrightarrow> int_min \<le> i \<and> i \<le> int_max"

text \<open>The number formatted by \<open>std::to_string\<close> is the number extracted, inside a longer text.\<close>

lemma extract_int_to_string [parse_simps]:
  assumes "int_range i" "delimited r"
  shows "extract_int \<lparr>rest = to_string i @ r, failbit = False\<rparr> old
         = (Some i, \<lparr>rest = r, failbit = False\<rparr>)"
  using assms get_signed_to_string[of int_min i int_max r]
  by (simp add: extract_int_def sentry_to_string int_range_def)

lemma extract_int_space [parse_simps]:
  "extract_int \<lparr>rest = CHR '' '' # r, failbit = False\<rparr> old
   = (case sentry \<lparr>rest = r, failbit = False\<rparr> of
        None \<Rightarrow> (old, \<lparr>rest = CHR '' '' # r, failbit = True\<rparr>)
      | Some t \<Rightarrow> extract_int \<lparr>rest = r, failbit = False\<rparr> old)"
  by (simp add: extract_int_def sentry_space split: option.splits)

lemma extract_int_istringstream:
  "int_range i \<Longrightarrow> extract_int (istringstream (to_string i)) old = (Some i, \<lparr>rest = [], failbit = False\<rparr>)"
  using extract_int_to_string[of i "[]" old] by (simp add: istringstream_def)

lemma extract_bool_istringstream:
  "extract_bool (istringstream (to_string_bool b)) old = (Some b, \<lparr>rest = [], failbit = False\<rparr>)"
  using get_signed_to_string[of long_min "if b then 1 else 0" long_max "[]"]
    sentry_to_string[of "if b then 1 else 0" "[]"]
  by (simp add: extract_bool_def to_string_bool_def istringstream_def long_min_def long_max_def)

text \<open>A word without white space is extracted whole.\<close>

definition word_text :: "string \<Rightarrow> bool" where
  "word_text u \<longleftrightarrow> u \<noteq> [] \<and> (\<forall>c\<in>set u. \<not> is_space c)"

lemma extract_string_word [parse_simps]:
  assumes "word_text u" "r = [] \<or> is_space (hd r)"
  shows "extract_string \<lparr>rest = u @ r, failbit = False\<rparr> old = (u, \<lparr>rest = r, failbit = False\<rparr>)"
proof -
  from assms(1) obtain c cs where u: "u = c # cs" "\<not> is_space c"
    by (cases u) (auto simp: word_text_def)
  then have "sentry \<lparr>rest = u @ r, failbit = False\<rparr> = Some (u @ r)"
    by (simp add: sentry_def)
  with assms takeWhile_append_all[of u "\<lambda>c. \<not> is_space c" r] show ?thesis
    by (simp add: extract_string_def word_text_def)
qed

text \<open>A failed or exhausted stream leaves its target alone and stays failed.\<close>

lemma extract_failed [parse_simps]:
  assumes "failbit s"
  shows "extract_int s oi = (oi, s)" "extract_bool s ob = (ob, s)" "extract_string s os = (os, s)"
  using assms by (simp_all add: extract_int_def extract_bool_def extract_string_def sentry_def)

end
