(* ===== verification/Zhelpers.thy ===== *)
theory Zhelpers
  imports Zmq Streams
begin

text \<open>
  The ZeroMQ helpers (zhelpers.hpp) the programs communicate with: a string is sent as one
  message part, terminal or not, and received as one.
\<close>

section \<open>Strings over sockets\<close>

text \<open>
  \<open>s_recv\<close> ignores the result of \<open>recv\<close>: when the receive timed out it returns the empty string,
  as it does for an empty part.
\<close>

definition s_recv :: "'n \<Rightarrow> (('n, 'm) net_scheme, bytes) prog" where
  "s_recv n = bindM (socket_recv n) (\<lambda>(ok, message). returnM message)"

definition s_send :: "'n \<Rightarrow> bytes \<Rightarrow> (('n, 'm) net_scheme, bool) prog" where
  "s_send n str = socket_send n str False"

definition s_sendmore :: "'n \<Rightarrow> bytes \<Rightarrow> (('n, 'm) net_scheme, bool) prog" where
  "s_sendmore n str = socket_send n str True"

lemma s_send_ok [prog_simps]:
  "api_ok w \<Longrightarrow> s_send n b w = Ret True (did n (Zmq_msg_send b False) w)"
  "api_ok w \<Longrightarrow> s_sendmore n b w = Ret True (did n (Zmq_msg_send b True) w)"
  by (simp_all add: s_send_def s_sendmore_def prog_simps)

lemma s_recv_Nil [prog_simps]: "inbox w n = [] \<Longrightarrow> s_recv n w = Stuck w"
  by (simp add: s_recv_def prog_simps)

lemma s_recv_Delivered [prog_simps]:
  "inbox w n = Delivered b m # ds \<Longrightarrow> s_recv n w = Ret b (took n (Delivered b m) ds w)"
  by (simp add: s_recv_def prog_simps)

lemma s_recv_Refused [prog_simps]:
  "inbox w n = Refused e # ds \<Longrightarrow> s_recv n w =
     (if e = EAGAIN then Ret [] (took n (Refused e) ds w) else Throw (Zmq_error e) (took n (Refused e) ds w))"
  by (simp add: s_recv_def prog_simps)

lemma emits_s_send [intro]:
  "(\<And>rc. E (Called n (Zmq_msg_send b False) rc)) \<Longrightarrow> emits E (s_send n b)"
  "(\<And>rc. E (Called n (Zmq_msg_send b True) rc)) \<Longrightarrow> emits E (s_sendmore n b)"
  unfolding s_send_def s_sendmore_def by blast+

lemma emits_s_recv [intro]:
  "(\<And>b m. E (Received n b m)) \<Longrightarrow> (\<And>e. E (Nothing_received n e)) \<Longrightarrow> emits E (s_recv n)"
  unfolding s_recv_def by (intro emits_bind emits_socket_recv) (auto split: prod.split)

lemma s_send_inbox: "s_send n b w = Ret a w' \<Longrightarrow> inbox w' = inbox w"
  "s_sendmore n b w = Ret a w' \<Longrightarrow> inbox w' = inbox w"
  by (auto simp: s_send_def s_sendmore_def dest: socket_send_inbox)

lemma s_send_frame: "s_send n b w = Ret a w' \<Longrightarrow> \<exists>t. w' = w\<lparr>trace := t\<rparr>"
  "s_sendmore n b w = Ret a w' \<Longrightarrow> \<exists>t. w' = w\<lparr>trace := t\<rparr>"
  by (auto simp: s_send_def s_sendmore_def dest: socket_send_frame)

lemma s_recv_inbox:
  assumes "s_recv n w = Ret a w'"
  shows "\<exists>d. inbox w n = d # inbox w' n \<and> (\<forall>m. m \<noteq> n \<longrightarrow> inbox w' m = inbox w m)"
  using assms unfolding s_recv_def
  by (auto simp: bindM_Ret_iff returnM_def dest!: socket_recv_inbox)

lemma s_recv_shrinks: "s_recv n w = Ret a w' \<Longrightarrow> length (inbox w' n) < length (inbox w n)"
  by (drule s_recv_inbox) auto

lemma s_recv_bind [exec_simps]:
  "inbox w n \<noteq> [] \<Longrightarrow> bindM (s_recv n) f w =
     (let w' = took n (hd (inbox w n)) (tl (inbox w n)) w in
      case hd (inbox w n) of
        Delivered b m \<Rightarrow> f b w'
      | Refused e \<Rightarrow> if e = EAGAIN then f [] w' else Throw (Zmq_error e) w')"
  by (cases "inbox w n") (auto simp: prog_simps Let_def split: delivery.splits)

lemma s_send_bind [exec_simps]:
  "api_ok w \<Longrightarrow> bindM (s_send n b) f w = f True (did n (Zmq_msg_send b False) w)"
  "api_ok w \<Longrightarrow> bindM (s_sendmore n b) f w = f True (did n (Zmq_msg_send b True) w)"
  by (rule bindM_Ret, erule s_send_ok)+

lemmas [exec_simps] = s_send_ok s_recv_Delivered

text \<open>A delivered part that is not a given word.\<close>

primrec says_not :: "bytes \<Rightarrow> delivery \<Rightarrow> bool" where
  "says_not u (Delivered b f) = (b \<noteq> u)"
| "says_not u (Refused e) = False"

end
