(* ===== verification/Barrier.thy ===== *)
theory Barrier
  imports Zhelpers
begin

text \<open>
  The interface of a synchronisation barrier over a reply socket: a loop that counts the
  requests of its clients, answers each, and broadcasts a hello while none arrives. The
  controller has two such loops (for the listeners and for the processes they start); what a
  barrier promises is proved once, in the locale.
\<close>

section \<open>The discipline of a reply socket\<close>

text \<open>
  A reply socket receives and sends in turn. The automaton reads the events of one socket:
  its state says whether a request is waiting for its reply, \<open>None\<close> is a violation.
\<close>

fun rep_step :: "'n \<Rightarrow> bool \<Rightarrow> 'n event \<Rightarrow> bool option" where
  "rep_step n busy (Received m b f) = (if m \<noteq> n then Some busy else if busy then None else Some True)"
| "rep_step n busy (Nothing_received m e) = (if m \<noteq> n then Some busy else if busy then None else Some False)"
| "rep_step n busy (Called m (Zmq_msg_send b f) rc) =
     (if m \<noteq> n then Some busy else if \<not> busy then None else Some (\<not> 0 \<le> rc))"
| "rep_step n busy (Called m _ rc) = Some busy"

fun rep_run :: "'n \<Rightarrow> bool \<Rightarrow> 'n event list \<Rightarrow> bool option" where
  "rep_run n busy [] = Some busy"
| "rep_run n busy (e # es) = (case rep_step n busy e of None \<Rightarrow> None | Some b \<Rightarrow> rep_run n b es)"

lemma rep_run_append [simp]:
  "rep_run n busy (xs @ ys) = (case rep_run n busy xs of None \<Rightarrow> None | Some b \<Rightarrow> rep_run n b ys)"
  by (induction xs arbitrary: busy) (auto split: option.splits)

lemma rep_run_did [simp]:
  "api_ok w \<Longrightarrow> rep_run n s (trace w) = Some True \<Longrightarrow>
   rep_run n s (trace (did n (Zmq_msg_send b f) w)) = Some False"
  by (rule api_okE[of w "trace w" n "Zmq_msg_send b f"]) (simp_all add: did_def)

lemma rep_run_did_other [simp]:
  "m \<noteq> n \<Longrightarrow> rep_run n s (trace (did m c w)) = rep_run n s (trace w)"
  by (cases c) (auto simp: did_def split: option.splits)

lemma rep_run_took [simp]:
  "rep_run n s (trace w) = Some False \<Longrightarrow>
   rep_run n s (trace (took n d ds w)) = Some (case d of Delivered b f \<Rightarrow> True | Refused e \<Rightarrow> False)"
  by (cases d) (simp_all add: took_def)

text \<open>Events that do not concern a reply socket, and programs that emit nothing else.\<close>

definition neutral :: "'n \<Rightarrow> 'n event \<Rightarrow> bool" where
  "neutral n e \<longleftrightarrow> (\<forall>s. rep_step n s e = Some s)"

lemma neutral_simps [simp]:
  "m \<noteq> n \<Longrightarrow> neutral n (Received m b f)" "m \<noteq> n \<Longrightarrow> neutral n (Nothing_received m e)"
  "m \<noteq> n \<Longrightarrow> neutral n (Called m c rc)" "neutral n (Called m (Zmq_socket ty) rc)"
  "neutral n (Called m (Zmq_bind addr) rc)" "neutral n (Called m (Zmq_setsockopt opt v) rc)"
  "neutral n (Called m Zmq_close rc)"
  by (cases c; simp add: neutral_def)+

lemma rep_run_neutral: "\<forall>e\<in>set t. neutral n e \<Longrightarrow> rep_run n s t = Some s"
  by (induction t arbitrary: s) (auto simp: neutral_def)

lemma emits_neutral_keeps:
  assumes "emits_at (neutral n) p w"
  shows "rep_run n s (trace (final_world (p w))) = rep_run n s (trace w)"
  by (rule emits_atD[OF assms]) (auto simp: rep_run_neutral split: option.splits)

section \<open>Answers of the receive calls\<close>

text \<open>With a receive timeout set, a receive delivers a request or gives up with EAGAIN.\<close>

definition request_or_timeout :: "delivery \<Rightarrow> bool" where
  "request_or_timeout d \<longleftrightarrow> (case d of Delivered b f \<Rightarrow> True | Refused e \<Rightarrow> e = EAGAIN)"

definition is_request :: "delivery \<Rightarrow> bool" where
  "is_request d \<longleftrightarrow> (case d of Delivered b f \<Rightarrow> True | Refused e \<Rightarrow> False)"

lemma delivery_simps [simp]:
  "request_or_timeout (Delivered b f)" "request_or_timeout (Refused e) \<longleftrightarrow> e = EAGAIN"
  "is_request (Delivered b f)" "\<not> is_request (Refused e)"
  by (simp_all add: request_or_timeout_def is_request_def)

definition requests :: "delivery list \<Rightarrow> nat" where
  "requests ds = length (filter is_request ds)"

lemma requests_simps [simp]: "requests [] = 0"
  "requests (d # ds) = (if is_request d then Suc (requests ds) else requests ds)"
  "requests (ds @ es) = requests ds + requests es"
  by (simp_all add: requests_def)

lemma requests_pos: "ds \<noteq> [] \<Longrightarrow> is_request (last ds) \<Longrightarrow> 0 < requests ds"
  by (auto simp: requests_def filter_empty_conv)

text \<open>The answers up to the one that opens a barrier for which \<open>k\<close> requests are missing.\<close>

definition opens_with :: "int \<Rightarrow> delivery list \<Rightarrow> bool" where
  "opens_with k ds \<longleftrightarrow> list_all request_or_timeout ds \<and> int (requests ds) = k
     \<and> (ds = [] \<or> is_request (last ds))"

text \<open>
  What a barrier has done between two worlds: hellos broadcast, requests answered, and the
  answers it did not need left in the inbox.
\<close>

definition synced :: "'n \<Rightarrow> 'n \<Rightarrow> bytes \<Rightarrow> nat \<Rightarrow> nat \<Rightarrow> delivery list \<Rightarrow> 'n net \<Rightarrow> 'n net \<Rightarrow> bool" where
  "synced sock pub hello hellos replies later w w' \<longleftrightarrow>
     api_ok w' \<and> inbox w' = (inbox w)(sock := later) \<and> live w' = live w
     \<and> sent pub (trace w') = sent pub (trace w) @ replicate hellos (hello, False)
     \<and> sent sock (trace w') = sent sock (trace w) @ replicate replies ([], False)
     \<and> length (received sock (trace w')) = length (received sock (trace w)) + replies"

section \<open>The barrier\<close>

locale sync_barrier =
  fixes loop :: "int \<Rightarrow> int \<Rightarrow> ('n net, int) prog"
    and sock :: 'n
    and pub :: 'n
    and hello :: bytes
  assumes two_sockets: "sock \<noteq> pub"
    and unfold: "loop target k w =
      (if k < target
       then bindM (socket_recv sock) (\<lambda>(ret, message).
              if \<not> ret then bindM (s_send pub hello) (\<lambda>_. loop target k)
              else bindM (s_send sock []) (\<lambda>_. loop target (k + 1))) w
       else Ret k w)"
begin

lemma reached: "target \<le> k \<Longrightarrow> loop target k w = Ret k w"
  by (subst unfold) simp

lemma step_timeout:
  assumes "api_ok w" "k < target" "inbox w sock = Refused EAGAIN # ds"
  shows "loop target k w = loop target k (did pub (Zmq_msg_send hello False) (took sock (Refused EAGAIN) ds w))"
  using assms by (subst unfold) (simp add: prog_simps)

lemma step_request:
  assumes "api_ok w" "k < target" "inbox w sock = Delivered b f # ds"
  shows "loop target k w
         = loop target (k + 1) (did sock (Zmq_msg_send [] False) (took sock (Delivered b f) ds w))"
  using assms by (subst unfold) (simp add: prog_simps)

lemma step_exec:
  "api_ok w \<Longrightarrow> k < target \<Longrightarrow> inbox w sock \<noteq> [] \<Longrightarrow> loop target k w =
     (let w' = took sock (hd (inbox w sock)) (tl (inbox w sock)) w in
      case hd (inbox w sock) of
        Delivered b f \<Rightarrow> loop target (k + 1) (did sock (Zmq_msg_send [] False) w')
      | Refused e \<Rightarrow> if e = EAGAIN then loop target k (did pub (Zmq_msg_send hello False) w')
                    else Throw (Zmq_error e) w')"
  by (subst unfold) (cases "inbox w sock"; auto simp: prog_simps Let_def split: delivery.splits)

lemma step_stuck: "k < target \<Longrightarrow> inbox w sock = [] \<Longrightarrow> loop target k w = Stuck w"
  by (subst unfold) (simp add: prog_simps)

text \<open>
  The barrier opens: when the answers of the receive calls hold the requests that are missing,
  the loop returns the target count, has sent one reply for each request and one hello for
  each timeout before the last request, and leaves later answers untouched.
\<close>

lemma opens:
  assumes "api_ok w" "inbox w sock = ds @ later" "opens_with (target - k) ds"
  shows "\<exists>w'. loop target k w = Ret target w'
    \<and> synced sock pub hello (length ds - requests ds) (requests ds) later w w'"
  using assms unfolding opens_with_def
proof (induction ds arbitrary: k w)
  case Nil
  then show ?case by (intro exI[of _ w]) (auto simp: reached synced_def)
next
  case (Cons d ds)
  with requests_pos[of "d # ds"] have lt: "k < target" by simp
  from Cons.prems have last: "ds = [] \<or> is_request (last ds)" by (auto split: if_splits)
  have le: "requests ds \<le> length ds" by (simp add: requests_def)
  show ?case
  proof (cases d)
    case (Refused e)
    let ?w = "did pub (Zmq_msg_send hello False) (took sock (Refused EAGAIN) (ds @ later) w)"
    from Refused Cons.prems have e: "d = Refused EAGAIN" by simp
    have "loop target k w = loop target k ?w"
      using Cons.prems lt by (intro step_timeout) (simp_all add: e)
    moreover obtain w' where "loop target k ?w = Ret target w'"
      "synced sock pub hello (length ds - requests ds) (requests ds) later ?w w'"
      using Cons.IH[of ?w k] Cons.prems last e by auto
    ultimately show ?thesis
      using Cons.prems(1) two_sockets e le by (auto simp: synced_def Suc_diff_le)
  next
    case (Delivered b f)
    let ?w = "did sock (Zmq_msg_send [] False) (took sock (Delivered b f) (ds @ later) w)"
    have "loop target k w = loop target (k + 1) ?w"
      using Cons.prems lt Delivered by (intro step_request) simp_all
    moreover obtain w' where "loop target (k + 1) ?w = Ret target w'"
      "synced sock pub hello (length ds - requests ds) (requests ds) later ?w w'"
      using Cons.IH[of ?w "k + 1"] Cons.prems last Delivered by auto
    ultimately show ?thesis
      using Cons.prems(1) two_sockets Delivered by (auto simp: synced_def)
  qed
qed

text \<open>With too few requests the barrier never opens: the loop waits in its receive call.\<close>

lemma waits:
  assumes "api_ok w" "list_all request_or_timeout (inbox w sock)"
    "int (requests (inbox w sock)) < target - k"
  shows "\<exists>w'. loop target k w = Stuck w' \<and> inbox w' sock = []"
  using assms
proof (induction "inbox w sock" arbitrary: k w)
  case Nil
  then show ?case by (auto simp: step_stuck)
next
  case (Cons d ds)
  from Cons.hyps(2) Cons.prems have lt: "k < target" by (cases "inbox w sock") (auto split: if_splits)
  show ?case
  proof (cases d)
    case (Refused e)
    with Cons.hyps(2) Cons.prems have e: "inbox w sock = Refused EAGAIN # ds" by (metis delivery_simps(2) list.pred_inject(2))
    show ?thesis
      unfolding step_timeout[OF Cons.prems(1) lt e]
      by (rule Cons.hyps(1)) (use Cons.prems e in auto)
  next
    case (Delivered b f)
    with Cons.hyps(2) have e: "inbox w sock = Delivered b f # ds" by simp
    show ?thesis
      unfolding step_request[OF Cons.prems(1) lt e]
      by (rule Cons.hyps(1)) (use Cons.prems e in auto)
  qed
qed

text \<open>
  Whatever the library answers, the loop only receives on its socket, replies on it and
  broadcasts its hello.
\<close>

definition barrier_event :: "'n event \<Rightarrow> bool" where
  "barrier_event e \<longleftrightarrow> (case e of
       Received n b f \<Rightarrow> n = sock
     | Nothing_received n e \<Rightarrow> n = sock
     | Called n c rc \<Rightarrow> (n = pub \<and> c = Zmq_msg_send hello False) \<or> (n = sock \<and> c = Zmq_msg_send [] False))"

lemma recv_cases:
  obtains (silent) "inbox w sock = []" "socket_recv sock w = Stuck w"
  | (request) b f ds where "inbox w sock = Delivered b f # ds"
      "socket_recv sock w = Ret (True, b) (took sock (Delivered b f) ds w)"
  | (timeout) ds where "inbox w sock = Refused EAGAIN # ds"
      "socket_recv sock w = Ret (False, []) (took sock (Refused EAGAIN) ds w)"
  | (failure) e ds where "inbox w sock = Refused e # ds" "e \<noteq> EAGAIN"
      "socket_recv sock w = Throw (Zmq_error e) (took sock (Refused e) ds w)"
proof (cases "inbox w sock")
  case Nil
  with silent show ?thesis by (simp add: prog_simps)
next
  case (Cons d ds)
  then show ?thesis
    using request timeout failure by (cases d) (auto simp: prog_simps split: if_splits)
qed

lemma emits_barrier_event: "emits barrier_event (loop target k)"
proof -
  have recv: "emits barrier_event (socket_recv sock)"
    by (intro emits_socket_recv) (simp_all add: barrier_event_def)
  have send: "emits barrier_event (s_send pub hello)" "emits barrier_event (s_send sock [])"
    by (intro emits_s_send; simp add: barrier_event_def)+
  have "emits_at barrier_event (loop target k) w" for w
  proof (induction "length (inbox w sock)" arbitrary: k w rule: less_induct)
    case less
    let ?body = "\<lambda>(ret, message). if \<not> ret then bindM (s_send pub hello) (\<lambda>_. loop target k)
              else bindM (s_send sock []) (\<lambda>_. loop target (k + 1))"
    have "emits_at barrier_event (bindM (socket_recv sock) ?body) w"
    proof (rule emits_at_bind[OF emits_atI[OF recv]], clarify)
      fix ret m w1 assume r: "socket_recv sock w = Ret (ret, m) w1"
      have IH: "emits_at barrier_event (loop target j) w2" if "s_send n b w1 = Ret a w2" for n b a w2 j
        using less[of w2 j] socket_recv_shrinks[OF r] s_send_inbox(1)[OF that] by simp
      show "emits_at barrier_event (if \<not> ret then bindM (s_send pub hello) (\<lambda>_. loop target k)
              else bindM (s_send sock []) (\<lambda>_. loop target (k + 1))) w1"
        using IH by (auto intro!: emits_at_bind emits_atI[OF send(1)] emits_atI[OF send(2)])
    qed
    then show ?case
      unfolding emits_at_def by (subst (1 2) unfold) simp
  qed
  then show ?thesis by (simp add: emits_def)
qed

text \<open>
  The barrier holds: whatever the library answers, the loop returns only after it has received
  as many requests as were missing.
\<close>

lemma holds:
  assumes "loop target k w = Ret k' w'" "k \<le> target"
  shows "k' = target
    \<and> int (length (received sock (trace w'))) = int (length (received sock (trace w))) + (target - k)"
  using assms
proof (induction "length (inbox w sock)" arbitrary: k w rule: less_induct)
  case less
  show ?case
  proof (cases "k < target")
    case False
    with less.prems show ?thesis by (simp add: reached)
  next
    case True
    from less.prems True obtain ret m w1 where recv: "socket_recv sock w = Ret (ret, m) w1"
      and cont: "(if \<not> ret then bindM (s_send pub hello) (\<lambda>_. loop target k)
         else bindM (s_send sock []) (\<lambda>_. loop target (k + 1))) w1 = Ret k' w'"
      by (subst (asm) unfold) (auto simp: bindM_Ret_iff)
    have sh: "length (inbox w1 sock) < length (inbox w sock)" using recv by (rule socket_recv_shrinks)
    have rec: "received sock (trace w2) = received sock (trace w1)" if "s_send n b w1 = Ret a w2" for n b a w2
      using that by (auto simp: s_send_def socket_send_def zmq_call_def prog_simps split: answer.splits if_splits)
    show ?thesis
    proof (cases ret)
      case False
      with cont obtain a w2 where w2: "s_send pub hello w1 = Ret a w2" "loop target k w2 = Ret k' w'"
        by (auto simp: bindM_Ret_iff)
      have "received sock (trace w1) = received sock (trace w)"
        using recv False by (cases rule: recv_cases[of w]) auto
      with less.hyps[of w2 k] sh w2 s_send_inbox(1)[OF w2(1)] rec[OF w2(1)] less.prems(2) show ?thesis by simp
    next
      case ret: True
      with cont obtain a w2 where w2: "s_send sock [] w1 = Ret a w2" "loop target (k + 1) w2 = Ret k' w'"
        by (auto simp: bindM_Ret_iff)
      have "length (received sock (trace w1)) = Suc (length (received sock (trace w)))"
        using recv ret by (cases rule: recv_cases[of w]) auto
      with less.hyps[of w2 "k + 1"] sh w2 s_send_inbox(1)[OF w2(1)] rec[OF w2(1)] True show ?thesis by simp
    qed
  qed
qed

text \<open>The loop keeps the discipline of its reply socket, on every outcome.\<close>

lemma disciplined:
  assumes "api_ok w" "rep_run sock s (trace w) = Some False"
  shows "rep_run sock s (trace (final_world (loop target k w))) = Some False"
  using assms
proof (induction "length (inbox w sock)" arbitrary: k w rule: less_induct)
  case less
  show ?case
  proof (cases "k < target")
    case False
    with less.prems show ?thesis by (simp add: reached)
  next
    case True
    show ?thesis
    proof (cases rule: recv_cases[of w])
      case (request b f ds)
      with True less.prems show ?thesis
        by (simp add: step_request[OF less.prems(1) True request(1)]
            less.hyps[of "did sock (Zmq_msg_send [] False) (took sock (Delivered b f) ds w)"])
    next
      case (timeout ds)
      with True less.prems two_sockets show ?thesis
        by (simp add: step_timeout[OF less.prems(1) True timeout(1)]
            less.hyps[of "did pub (Zmq_msg_send hello False) (took sock (Refused EAGAIN) ds w)"])
    qed (use True less.prems in \<open>subst unfold, simp add: bindM_def\<close>)+
  qed
qed

end

end
