(* ===== verification/Doubles.thy ===== *)
theory Doubles
  imports Streams
begin

text \<open>
  \<open>double\<close> values and their text. A value is a rational, an infinity or a NaN, the last two with
  their sign. Arithmetic is the exact operation followed by the rounding function of the
  platform, a parameter (\<open>fp\<close>): the rounding of a rational, the square root of the C library and
  the sign of the NaN an invalid operation yields. Signed zeros are not told apart.

  Insertion into a stream is the default format, six significant digits; extraction collects
  the longest numeral and converts it. The main lemma is that extraction gives back what
  insertion wrote: the value rounded to six significant digits.
\<close>

datatype double = Fin rat | Infinite bool | NaN bool

record fp =
  rnd :: "rat \<Rightarrow> double"
  fsqrt :: "double \<Rightarrow> double"
  nan_sign :: bool

section \<open>Arithmetic\<close>

definition sign_of :: "rat \<Rightarrow> bool" where
  "sign_of r \<longleftrightarrow> r < 0"

fun dadd :: "fp \<Rightarrow> double \<Rightarrow> double \<Rightarrow> double" where
  "dadd F (NaN b) _ = NaN b"
| "dadd F _ (NaN b) = NaN b"
| "dadd F (Infinite a) (Infinite b) = (if a = b then Infinite a else NaN (nan_sign F))"
| "dadd F (Infinite a) (Fin _) = Infinite a"
| "dadd F (Fin _) (Infinite b) = Infinite b"
| "dadd F (Fin x) (Fin y) = rnd F (x + y)"

fun dmul :: "fp \<Rightarrow> double \<Rightarrow> double \<Rightarrow> double" where
  "dmul F (NaN b) _ = NaN b"
| "dmul F _ (NaN b) = NaN b"
| "dmul F (Infinite a) (Infinite b) = Infinite (a \<noteq> b)"
| "dmul F (Infinite a) (Fin y) = (if y = 0 then NaN (nan_sign F) else Infinite (a \<noteq> sign_of y))"
| "dmul F (Fin x) (Infinite b) = (if x = 0 then NaN (nan_sign F) else Infinite (sign_of x \<noteq> b))"
| "dmul F (Fin x) (Fin y) = rnd F (x * y)"

fun ddiv :: "fp \<Rightarrow> double \<Rightarrow> double \<Rightarrow> double" where
  "ddiv F (NaN b) _ = NaN b"
| "ddiv F _ (NaN b) = NaN b"
| "ddiv F (Infinite a) (Infinite b) = NaN (nan_sign F)"
| "ddiv F (Infinite a) (Fin y) = Infinite (a \<noteq> sign_of y)"
| "ddiv F (Fin x) (Infinite b) = Fin 0"
| "ddiv F (Fin x) (Fin y) =
     (if y = 0 then (if x = 0 then NaN (nan_sign F) else Infinite (sign_of x)) else rnd F (x / y))"

text \<open>An \<open>int\<close> converts to \<open>double\<close> exactly: 31 bits and a sign fit the mantissa.\<close>

definition double_of_int :: "int \<Rightarrow> double" where
  "double_of_int i = Fin (of_int i)"

section \<open>Extraction\<close>

definition pow10 :: "int \<Rightarrow> rat" where
  "pow10 e = (if 0 \<le> e then 10 ^ nat e else 1 / 10 ^ nat (- e))"

definition dbl_max :: rat where
  "dbl_max = (2 ^ 53 - 1) * 2 ^ 971"

definition get_fraction :: "string \<Rightarrow> string \<times> string" where
  "get_fraction t = (case t of
       c # cs \<Rightarrow> if c = CHR ''.'' then (takeWhile is_digit cs, dropWhile is_digit cs) else ([], t)
     | [] \<Rightarrow> ([], []))"

text \<open>The exponent part: \<open>None\<close> for an \<open>e\<close> with no digit behind it.\<close>

definition get_exponent :: "string \<Rightarrow> int option \<times> string" where
  "get_exponent t = (case t of
       c # cs \<Rightarrow>
         if c = CHR ''e'' \<or> c = CHR ''E''
         then (let (neg, t1) = split_sign cs; ds = takeWhile is_digit t1; t2 = dropWhile is_digit t1
               in (if ds = [] then None else Some (if neg then - int (value_of ds) else int (value_of ds)), t2))
         else (Some 0, t)
     | [] \<Rightarrow> (Some 0, []))"

definition get_double :: "fp \<Rightarrow> string \<Rightarrow> double \<times> bool \<times> string" where
  "get_double F t =
     (let (neg, t1) = split_sign t;
          ip = takeWhile is_digit t1;
          (fr, t3) = get_fraction (dropWhile is_digit t1)
      in if ip @ fr = [] then (Fin 0, True, t3)
         else case get_exponent t3 of
             (None, t4) \<Rightarrow> (Fin 0, True, t4)
           | (Some e, t4) \<Rightarrow>
               (let v = of_nat (value_of (ip @ fr)) * pow10 (e - int (length fr));
                    x = (if neg then - v else v)
                in case rnd F x of
                     Infinite b \<Rightarrow> (Fin (if b then - dbl_max else dbl_max), True, t4)
                   | d \<Rightarrow> (d, False, t4)))"

definition extract_double :: "fp \<Rightarrow> istream \<Rightarrow> double option \<Rightarrow> double option \<times> istream" where
  "extract_double F s old = (case sentry s of
       None \<Rightarrow> (old, s\<lparr>failbit := True\<rparr>)
     | Some t \<Rightarrow> (let (v, bad, t') = get_double F t
                 in (Some v, \<lparr>rest = t', failbit = bad\<rparr>)))"

section \<open>Insertion\<close>

definition round_half_even :: "rat \<Rightarrow> int" where
  "round_half_even q =
     (let f = \<lfloor>q\<rfloor>; d = q - of_int f
      in if d < 1 / 2 then f else if 1 / 2 < d then f + 1 else if even f then f else f + 1)"

text \<open>The exponent of the leading decimal digit of a positive rational.\<close>

definition dec_exp :: "rat \<Rightarrow> int" where
  "dec_exp r =
     (let (p, q) = quotient_of r;
          k = int (length (show_nat (nat p))) - int (length (show_nat (nat q)))
      in if pow10 k \<le> r then k else k - 1)"

text \<open>Six significant digits: an integer mantissa of six digits and the decimal exponent.\<close>

definition sig6 :: "rat \<Rightarrow> nat \<times> int" where
  "sig6 r =
     (let X = dec_exp r; m = nat (round_half_even (r * pow10 (5 - X)))
      in if m = 10 ^ 6 then (10 ^ 5, X + 1) else (m, X))"

definition strip_zeros :: "string \<Rightarrow> string" where
  "strip_zeros s = rev (dropWhile (\<lambda>c. c = CHR ''0'') (rev s))"

definition with_point :: "string \<Rightarrow> string \<Rightarrow> string" where
  "with_point ip fr = (let fr' = strip_zeros fr in if fr' = [] then ip else ip @ CHR ''.'' # fr')"

definition show_exponent :: "int \<Rightarrow> string" where
  "show_exponent X = CHR ''e'' # (if X < 0 then CHR ''-'' else CHR ''+'')
     # (let ds = show_nat (nat \<bar>X\<bar>) in if length ds < 2 then CHR ''0'' # ds else ds)"

definition show_pos :: "rat \<Rightarrow> string" where
  "show_pos r =
     (let (m, X) = sig6 r; ds = show_nat m
      in if X < - 4 \<or> 6 \<le> X then with_point (take 1 ds) (drop 1 ds) @ show_exponent X
         else if 0 \<le> X then with_point (take (nat X + 1) ds) (drop (nat X + 1) ds)
         else with_point ''0'' (replicate (nat (- X) - 1) (CHR ''0'') @ ds))"

definition show_double :: "double \<Rightarrow> string" where
  "show_double d = (case d of
       NaN b \<Rightarrow> (if b then ''-nan'' else ''nan'')
     | Infinite b \<Rightarrow> (if b then ''-inf'' else ''inf'')
     | Fin r \<Rightarrow> (if r = 0 then ''0'' else if r < 0 then CHR ''-'' # show_pos (- r) else show_pos r))"

text \<open>The rational that six significant digits keep.\<close>

definition round6 :: "rat \<Rightarrow> rat" where
  "round6 r =
     (let keep = (\<lambda>x. case sig6 x of (m, X) \<Rightarrow> of_nat m * pow10 (X - 5))
      in if r = 0 then 0 else if r < 0 then - keep (- r) else keep r)"

section \<open>Powers of ten and decimal exponents\<close>

lemma pow10_power_int: "pow10 e = power_int 10 e"
  by (simp add: pow10_def power_int_def power_one_over)

lemma pow10_pos [simp]: "0 < pow10 e"
  by (simp add: pow10_def)

lemma pow10_nonzero [simp]: "pow10 e \<noteq> 0"
  using pow10_pos[of e] by linarith

lemma pow10_add: "pow10 (a + b) = pow10 a * pow10 b"
  by (simp add: pow10_power_int power_int_add)

lemma pow10_nat: "pow10 (int n) = 10 ^ n"
  by (simp add: pow10_def)

lemma pow10_0 [simp]: "pow10 0 = 1"
  by (simp add: pow10_def)

lemma pow10_diff: "pow10 (a - b) = pow10 a / pow10 b"
  using pow10_add[of "a - b" b] by (simp add: field_simps)

lemma pow10_mono: "a \<le> b \<Longrightarrow> pow10 a \<le> pow10 b"
  by (simp add: pow10_power_int power_int_increasing)

lemma length_show_nat_pos [simp]: "0 < length (show_nat n)"
  by simp

lemma show_nat_bounds:
  "n < 10 ^ length (show_nat n) \<and> (0 < n \<longrightarrow> 10 ^ (length (show_nat n) - 1) \<le> n)"
proof (induction n rule: show_nat.induct)
  case (1 n)
  show ?case
  proof (cases "n < 10")
    case True
    then show ?thesis by (simp add: show_nat.simps[of n])
  next
    case False
    let ?l = "length (show_nat (n div 10))"
    have len: "length (show_nat n) = Suc ?l"
      using False by (simp add: show_nat.simps[of n])
    from 1[OF False] False have lo: "10 ^ (?l - 1) \<le> n div 10" and hi: "n div 10 < 10 ^ ?l"
      by auto
    have "10 ^ ?l = 10 * 10 ^ (?l - 1)"
      using length_show_nat_pos[of "n div 10"] by (cases ?l) simp_all
    also have "\<dots> \<le> n" using lo by linarith
    finally have "10 ^ ?l \<le> n" .
    moreover have "n < 10 ^ Suc ?l" using hi by simp
    ultimately show ?thesis by (simp add: len)
  qed
qed

lemma length_show_nat_eq:
  assumes "10 ^ k \<le> n" "n < 10 ^ Suc k"
  shows "length (show_nat n) = Suc k"
proof -
  from assms(1) have "0 < n" by (metis gr0I le_zero_eq power_not_zero zero_neq_numeral)
  with show_nat_bounds[of n] have lo: "10 ^ (length (show_nat n) - 1) \<le> n"
    and hi: "n < 10 ^ length (show_nat n)" by auto
  from lo assms(2) have "(10::nat) ^ (length (show_nat n) - 1) < 10 ^ Suc k" by linarith
  then have "length (show_nat n) - 1 < Suc k"
    by (rule power_less_imp_less_exp[rotated]) simp
  moreover from hi assms(1) have "(10::nat) ^ k < 10 ^ length (show_nat n)" by linarith
  then have "k < length (show_nat n)"
    by (rule power_less_imp_less_exp[rotated]) simp
  ultimately show ?thesis by linarith
qed

lemma show_nat_rat_bounds:
  assumes "0 < n"
  shows "(10::rat) ^ (length (show_nat n) - 1) \<le> of_nat n" and "of_nat n < (10::rat) ^ length (show_nat n)"
proof -
  have "of_nat (10 ^ (length (show_nat n) - 1)) \<le> (of_nat n :: rat)"
    using show_nat_bounds[of n] assms by (simp only: of_nat_le_iff)
  then show "(10::rat) ^ (length (show_nat n) - 1) \<le> of_nat n" by simp
  have "(of_nat n :: rat) < of_nat (10 ^ length (show_nat n))"
    using show_nat_bounds[of n] by (simp only: of_nat_less_iff)
  then show "of_nat n < (10::rat) ^ length (show_nat n)" by simp
qed

lemma dec_exp_correct:
  assumes "0 < r"
  shows "pow10 (dec_exp r) \<le> r \<and> r < pow10 (dec_exp r + 1)"
proof -
  obtain p q where pq: "quotient_of r = (p, q)" by (cases "quotient_of r")
  have q: "0 < q" using quotient_of_denom_pos[OF pq] .
  have r: "r = of_int p / of_int q" using quotient_of_div[OF pq] .
  with assms q have p: "0 < p" by (simp add: zero_less_divide_iff)
  define lp lq where "lp = length (show_nat (nat p))" and "lq = length (show_nat (nat q))"
  have lpq: "0 < lp" "0 < lq" by (simp_all add: lp_def lq_def)
  have P: "10 ^ (lp - 1) \<le> (of_int p :: rat)" "(of_int p :: rat) < 10 ^ lp"
    using show_nat_rat_bounds[of "nat p"] p by (simp_all add: lp_def)
  have Q: "10 ^ (lq - 1) \<le> (of_int q :: rat)" "(of_int q :: rat) < 10 ^ lq"
    using show_nat_rat_bounds[of "nat q"] q by (simp_all add: lq_def)
  have "r < 10 ^ lp / 10 ^ (lq - 1)"
    unfolding r using P Q q p by (intro frac_less) simp_all
  also have "\<dots> = pow10 (int lp - int lq + 1)"
  proof -
    have "int lp - int lq + 1 = int lp - int (lq - 1)" using lpq by simp
    then show ?thesis by (simp only: pow10_diff pow10_nat)
  qed
  finally have up: "r < pow10 (int lp - int lq + 1)" .
  have "pow10 (int lp - int lq - 1) = 10 ^ (lp - 1) / 10 ^ lq"
  proof -
    have "int lp - int lq - 1 = int (lp - 1) - int lq" using lpq by simp
    then show ?thesis by (simp only: pow10_diff pow10_nat)
  qed
  also have "\<dots> \<le> r"
    unfolding r using P Q q p by (intro frac_le) simp_all
  finally have low: "pow10 (int lp - int lq - 1) \<le> r" .
  show ?thesis
    using up low by (simp add: dec_exp_def pq Let_def lp_def[symmetric] lq_def[symmetric])
qed

lemma round_half_even_bounds:
  "of_int a \<le> q \<Longrightarrow> a \<le> round_half_even q"
  "q \<le> of_int b \<Longrightarrow> round_half_even q \<le> b"
proof -
  show "of_int a \<le> q \<Longrightarrow> a \<le> round_half_even q"
    by (auto simp: round_half_even_def Let_def le_floor_iff intro: add_increasing2)
  assume le: "q \<le> of_int b"
  show "round_half_even q \<le> b"
  proof (cases "q = of_int b")
    case True
    then show ?thesis by (simp add: round_half_even_def)
  next
    case False
    with le have "\<lfloor>q\<rfloor> < b" by (simp add: floor_less_iff)
    then show ?thesis by (auto simp: round_half_even_def Let_def)
  qed
qed

lemma round_half_even_int [simp]: "round_half_even (of_int i) = i"
  by (simp add: round_half_even_def)

lemma sig6_digits:
  assumes "0 < r" "sig6 r = (m, X)"
  shows "10 ^ 5 \<le> m \<and> m < 10 ^ 6"
proof -
  let ?X = "dec_exp r"
  let ?n = "round_half_even (r * pow10 (5 - ?X))"
  have "pow10 5 = pow10 ?X * pow10 (5 - ?X)" "pow10 6 = pow10 (?X + 1) * pow10 (5 - ?X)"
    by (simp_all add: pow10_add[symmetric])
  then have "pow10 5 \<le> r * pow10 (5 - ?X)" "r * pow10 (5 - ?X) \<le> pow10 6"
    using dec_exp_correct[OF assms(1)] by (simp_all add: mult_right_mono)
  then have "10 ^ 5 \<le> ?n" "?n \<le> 10 ^ 6"
    using round_half_even_bounds(1)[of "10 ^ 5" "r * pow10 (5 - ?X)"]
      round_half_even_bounds(2)[of "r * pow10 (5 - ?X)" "10 ^ 6"]
    by (simp_all add: pow10_def)
  then show ?thesis
    using assms(2) by (auto simp: sig6_def Let_def split: if_splits)
qed

section \<open>Extraction after insertion\<close>

text \<open>What may follow a number in the lines the programs exchange: nothing or a blank.\<close>

definition blank_next :: "string \<Rightarrow> bool" where
  "blank_next t \<longleftrightarrow> t = [] \<or> hd t = CHR '' ''"

definition all_digits :: "string \<Rightarrow> bool" where
  "all_digits ds \<longleftrightarrow> (\<forall>c\<in>set ds. is_digit c)"

lemma all_digits_simps [simp]:
  "all_digits []" "all_digits (c # cs) \<longleftrightarrow> is_digit c \<and> all_digits cs"
  "all_digits (xs @ ys) \<longleftrightarrow> all_digits xs \<and> all_digits ys" "all_digits (show_nat n)"
  by (auto simp: all_digits_def show_nat_digits)

lemma is_digit_zero [simp]: "is_digit (CHR ''0'')"
  by (simp add: is_digit_def)

lemma all_digits_take_drop [simp]: "all_digits ds \<Longrightarrow> all_digits (take k ds)" "all_digits ds \<Longrightarrow> all_digits (drop k ds)"
  by (auto simp: all_digits_def dest: in_set_takeD in_set_dropD)

lemma all_digits_zeros [simp]: "all_digits (replicate k (CHR ''0''))"
  by (simp add: all_digits_def is_digit_def)

lemma strip_zeros_split: "\<exists>k. s = strip_zeros s @ replicate k (CHR ''0'')"
proof -
  let ?p = "\<lambda>c. c = CHR ''0''"
  have "rev s = takeWhile ?p (rev s) @ dropWhile ?p (rev s)" by simp
  then have "s = strip_zeros s @ rev (takeWhile ?p (rev s))"
    unfolding strip_zeros_def by (metis rev_append rev_rev_ident)
  moreover have "set (takeWhile ?p (rev s)) \<subseteq> {CHR ''0''}"
    using set_takeWhileD[of _ ?p "rev s"] by blast
  then have "rev (takeWhile ?p (rev s)) = replicate (length (rev (takeWhile ?p (rev s)))) (CHR ''0'')"
    by (intro replicate_eqI) auto
  ultimately show ?thesis by metis
qed

lemma all_digits_strip [simp]: "all_digits s \<Longrightarrow> all_digits (strip_zeros s)"
  using strip_zeros_split[of s] by (metis all_digits_simps(3))

lemma value_of_append: "value_of (xs @ ys) = value_of xs * 10 ^ length ys + value_of ys"
proof (induction ys rule: rev_induct)
  case Nil
  then show ?case by (simp add: value_of_def)
next
  case (snoc y ys)
  have "value_of (xs @ ys @ [y]) = 10 * value_of (xs @ ys) + digit_val y"
    using value_of_snoc[of "xs @ ys" y] by simp
  then show ?case using snoc by (simp add: algebra_simps)
qed

lemma value_of_zeros [simp]: "value_of (replicate k (CHR ''0'')) = 0"
proof (induction k)
  case 0
  then show ?case by (simp add: value_of_def)
next
  case (Suc k)
  have "value_of (CHR ''0'' # replicate k (CHR ''0'')) = value_of ([CHR ''0''] @ replicate k (CHR ''0''))"
    by simp
  also have "\<dots> = 0" by (simp only: value_of_append Suc) (simp add: value_of_def digit_val_def)
  finally show ?case by simp
qed

text \<open>Dropping the trailing zeros of the fraction keeps the value.\<close>

lemma strip_zeros_value:
  "of_nat (value_of (ip @ strip_zeros fr)) * pow10 (e - int (length (strip_zeros fr)))
   = of_nat (value_of (ip @ fr)) * pow10 (e - int (length fr))"
proof -
  let ?s = "strip_zeros fr"
  obtain k where k: "fr = ?s @ replicate k (CHR ''0'')" using strip_zeros_split by blast
  have v: "value_of (ip @ fr) = value_of (ip @ ?s) * 10 ^ k"
    using value_of_append[of "ip @ ?s" "replicate k (CHR ''0'')"] k[symmetric] by simp
  have "length fr = length ?s + k" using arg_cong[OF k, of length] by simp
  then have "pow10 (e - int (length ?s)) = pow10 (int k) * pow10 (e - int (length fr))"
    by (simp add: pow10_add[symmetric])
  then show ?thesis by (simp add: v pow10_nat)
qed

lemma read_with_point:
  assumes "all_digits ip" "all_digits fr" "t = [] \<or> \<not> is_digit (hd t) \<and> hd t \<noteq> CHR ''.''"
  shows "takeWhile is_digit (with_point ip fr @ t) = ip"
    and "get_fraction (dropWhile is_digit (with_point ip fr @ t)) = (strip_zeros fr, t)"
proof -
  let ?f = "strip_zeros fr"
  have dot: "\<not> is_digit (CHR ''.'')" by (simp add: is_digit_def)
  have t: "t = [] \<or> \<not> is_digit (hd t)" using assms(3) by blast
  have ip: "\<forall>c\<in>set ip. is_digit c" and f: "\<forall>c\<in>set ?f. is_digit c"
    using assms(1,2) all_digits_strip by (auto simp: all_digits_def)
  note tails = takeWhile_append_all[OF ip, of "CHR ''.'' # ?f @ t"] takeWhile_append_all[OF ip t]
    takeWhile_append_all[OF f t]
  show "takeWhile is_digit (with_point ip fr @ t) = ip"
    using tails dot by (auto simp: with_point_def Let_def)
  show "get_fraction (dropWhile is_digit (with_point ip fr @ t)) = (strip_zeros fr, t)"
    using tails dot assms(3) by (auto simp: with_point_def Let_def get_fraction_def split: list.splits)
qed

lemma get_exponent_show:
  assumes "delimited t"
  shows "get_exponent (show_exponent X @ t) = (Some X, t)"
proof -
  let ?ds = "show_nat (nat \<bar>X\<bar>)"
  let ?es = "if length ?ds < 2 then CHR ''0'' # ?ds else ?ds"
  have es: "all_digits ?es" "?es \<noteq> []" by simp_all
  have v: "value_of ?es = nat \<bar>X\<bar>"
    using value_of_append[of "[CHR ''0'']" ?ds] by (simp add: value_of_def[of "[_]"] digit_val_def)
  have rd: "takeWhile is_digit (?es @ t) = ?es" "dropWhile is_digit (?es @ t) = t"
    using takeWhile_append_all[of ?es is_digit t] es(1) assms
    unfolding all_digits_def delimited_def by blast+
  have se: "show_exponent X = CHR ''e'' # (if X < 0 then CHR ''-'' else CHR ''+'') # ?es"
    unfolding show_exponent_def Let_def by (rule refl)
  show ?thesis
    unfolding se append_Cons get_exponent_def using rd v es(2)
    by (cases "X < 0") (simp_all add: split_sign_def del: append.simps split del: if_split)
qed

lemma blank_next_delims:
  assumes "blank_next t"
  shows "delimited t" "t = [] \<or> \<not> is_digit (hd t) \<and> hd t \<noteq> CHR ''.''" "get_exponent t = (Some 0, t)"
  using assms by (auto simp: blank_next_def delimited_def get_exponent_def split: list.splits)


lemma show_pos_digits:
  assumes "0 < r" "sig6 r = (m, X)"
  shows "length (show_nat m) = 6"
  using sig6_digits[OF assms] length_show_nat_eq[of 5 m] by simp

lemma with_point_head:
  assumes "all_digits ip" "ip \<noteq> []"
  shows "split_sign (with_point ip fr @ t) = (False, with_point ip fr @ t)"
  using assms by (cases ip) (auto simp: with_point_def Let_def split_sign_digit)

lemma get_double_decimal:
  assumes ip: "all_digits ip" "ip \<noteq> []" and fr: "all_digits fr"
    and u: "u = [] \<or> \<not> is_digit (hd u) \<and> hd u \<noteq> CHR ''.''"
    and e: "get_exponent u = (Some e, t)"
    and v: "v = of_nat (value_of (ip @ fr)) * pow10 (e - int (length fr))"
    and r: "rnd F v = Fin v'"
  shows "get_double F (with_point ip fr @ u) = (Fin v', False, t)"
  using ip(2) e r
  by (simp add: get_double_def with_point_head[OF ip] read_with_point[OF ip(1) fr u]
      strip_zeros_value v[symmetric])

lemma get_double_neg:
  assumes ip: "all_digits ip" "ip \<noteq> []" and fr: "all_digits fr"
    and u: "u = [] \<or> \<not> is_digit (hd u) \<and> hd u \<noteq> CHR ''.''"
    and e: "get_exponent u = (Some e, t)"
    and v: "v = of_nat (value_of (ip @ fr)) * pow10 (e - int (length fr))"
    and r: "rnd F (- v) = Fin v'"
  shows "get_double F (CHR ''-'' # with_point ip fr @ u) = (Fin v', False, t)"
proof -
  have "split_sign (CHR ''-'' # with_point ip fr @ u) = (True, with_point ip fr @ u)"
    by (simp add: split_sign_def)
  then show ?thesis
    using ip(2) e r
    by (simp add: get_double_def read_with_point[OF ip(1) fr u] strip_zeros_value v[symmetric])
qed

text \<open>
  The text of a positive number is a decimal numeral with an exponent part, and its value is
  the six digits kept.
\<close>

lemma show_pos_decimal:
  assumes "0 < r" "blank_next t"
  obtains ip fr u e where "all_digits ip" "ip \<noteq> []" "all_digits fr"
    "u = [] \<or> \<not> is_digit (hd u) \<and> hd u \<noteq> CHR ''.''" "get_exponent u = (Some e, t)"
    "show_pos r @ t = with_point ip fr @ u"
    "round6 r = of_nat (value_of (ip @ fr)) * pow10 (e - int (length fr))"
proof -
  obtain m X where mX: "sig6 r = (m, X)" by (cases "sig6 r")
  let ?ds = "show_nat m"
  have len: "length ?ds = 6" by (rule show_pos_digits[OF assms(1) mX])
  then have ne: "?ds \<noteq> []" "take (Suc k) ?ds \<noteq> []" for k by auto
  note bn = blank_next_delims[OF assms(2)]
  have r6: "round6 r = of_nat m * pow10 (X - 5)"
    using assms(1) mX by (simp add: round6_def)
  show thesis
  proof (cases "X < - 4 \<or> 6 \<le> X")
    case True
    have eh: "\<not> is_digit (hd (show_exponent X @ t)) \<and> hd (show_exponent X @ t) \<noteq> CHR ''.''"
      by (simp add: show_exponent_def is_digit_def)
    show thesis
    proof (rule that[of "take 1 ?ds" "drop 1 ?ds" "show_exponent X @ t" X])
      show "show_pos r @ t = with_point (take 1 ?ds) (drop 1 ?ds) @ show_exponent X @ t"
        using True mX by (simp add: show_pos_def Let_def)
      show "round6 r = of_nat (value_of (take 1 ?ds @ drop 1 ?ds)) * pow10 (X - int (length (drop 1 ?ds)))"
        using r6 len by simp
    qed (use eh ne get_exponent_show[OF bn(1)] in auto)
  next
    case False
    show thesis
    proof (cases "0 \<le> X")
      case True
      have "int (length (drop (nat X + 1) ?ds)) = 5 - X" using len False True by simp
      then show thesis
        using that[of "take (nat X + 1) ?ds" "drop (nat X + 1) ?ds" t 0] True False mX bn r6 ne
        by (simp add: show_pos_def Let_def)
    next
      case neg: False
      let ?z = "replicate (nat (- X) - 1) (CHR ''0'')"
      have "value_of (''0'' @ ?z @ ?ds) = value_of (replicate (Suc (nat (- X) - 1)) (CHR ''0'') @ ?ds)"
        by simp
      then have v: "value_of (''0'' @ ?z @ ?ds) = m"
        by (simp only: value_of_append value_of_zeros) simp
      have "int (length (?z @ ?ds)) = 5 - X" using len neg by simp
      then show thesis
        using that[of "''0''" "?z @ ?ds" t 0] neg False mX bn r6 v
        by (simp add: show_pos_def Let_def)
    qed
  qed
qed

text \<open>
  Extraction gives back the value rounded to six digits, wherever the platform represents
  that rational exactly enough to be finite.
\<close>

lemma get_double_show:
  assumes t: "blank_next t" and r: "rnd F (round6 r) = Fin v"
  shows "get_double F (show_double (Fin r) @ t) = (Fin v, False, t)"
proof -
  note bn = blank_next_delims[OF t]
  consider "r = 0" | "0 < r" | "r < 0" by linarith
  then show ?thesis
  proof cases
    case 1
    have "get_double F (with_point ''0'' [] @ t) = (Fin v, False, t)"
      by (rule get_double_decimal) (use 1 bn r in \<open>auto simp: round6_def value_of_def digit_val_def\<close>)
    with 1 show ?thesis by (simp add: show_double_def with_point_def strip_zeros_def)
  next
    case 2
    from show_pos_decimal[OF 2 t] obtain ip fr u e where d: "all_digits ip" "ip \<noteq> []" "all_digits fr"
      "u = [] \<or> \<not> is_digit (hd u) \<and> hd u \<noteq> CHR ''.''" "get_exponent u = (Some e, t)"
      and sh: "show_pos r @ t = with_point ip fr @ u"
      and v: "round6 r = of_nat (value_of (ip @ fr)) * pow10 (e - int (length fr))" .
    from get_double_decimal[OF d v r] 2 show ?thesis by (simp add: show_double_def sh)
  next
    case 3
    then have pos: "0 < - r" by simp
    from show_pos_decimal[OF pos t] obtain ip fr u e where d: "all_digits ip" "ip \<noteq> []" "all_digits fr"
      "u = [] \<or> \<not> is_digit (hd u) \<and> hd u \<noteq> CHR ''.''" "get_exponent u = (Some e, t)"
      and sh: "show_pos (- r) @ t = with_point ip fr @ u"
      and v: "round6 (- r) = of_nat (value_of (ip @ fr)) * pow10 (e - int (length fr))" .
    have "round6 r = - round6 (- r)" using 3 by (simp add: round6_def)
    with get_double_neg[OF d v] r 3 show ?thesis by (simp add: show_double_def sh)
  qed
qed

lemma show_double_head:
  obtains c cs where "show_double d = c # cs" and "\<not> is_space c"
proof (cases d)
  case (Fin r)
  have dig: "\<exists>c cs. show_pos x = c # cs \<and> is_digit c" if pos: "0 < x" for x
  proof -
    obtain ip fr u where "all_digits ip" "ip \<noteq> []" "show_pos x @ [] = with_point ip fr @ u"
      by (rule show_pos_decimal[OF pos, of "[]"]) (auto simp: blank_next_def)
    then show ?thesis by (cases ip) (auto simp: with_point_def Let_def split: if_splits)
  qed
  consider "r = 0" | "r < 0" | "0 < r" by linarith
  then show ?thesis
  proof cases
    case 3
    then show ?thesis using dig[of r] that Fin by (auto simp: show_double_def is_digit_not_space)
  qed (use Fin that in \<open>auto simp: show_double_def is_digit_not_space\<close>)
next
  case (Infinite b)
  then show ?thesis by (cases b) (auto intro!: that simp: show_double_def is_space_def)
next
  case (NaN b)
  then show ?thesis by (cases b) (auto intro!: that simp: show_double_def is_space_def)
qed

lemma sentry_show_double [parse_simps]:
  "sentry \<lparr>rest = show_double d @ t, failbit = False\<rparr> = Some (show_double d @ t)"
  by (rule show_double_head[of d]) (simp add: sentry_def)

lemma extract_double_show [parse_simps]:
  assumes "blank_next t" "rnd F (round6 r) = Fin v"
  shows "extract_double F \<lparr>rest = show_double (Fin r) @ t, failbit = False\<rparr> old
         = (Some (Fin v), \<lparr>rest = t, failbit = False\<rparr>)"
  by (simp add: extract_double_def sentry_show_double get_double_show[OF assms])

lemma extract_double_blank [parse_simps]:
  "sentry \<lparr>rest = t, failbit = False\<rparr> \<noteq> None \<Longrightarrow>
   extract_double F \<lparr>rest = CHR '' '' # t, failbit = False\<rparr> old
   = extract_double F \<lparr>rest = t, failbit = False\<rparr> old"
  by (auto simp: extract_double_def sentry_space)

text \<open>A NaN or an infinity is written as a word, which extraction does not accept.\<close>

lemma get_double_special:
  assumes "\<forall>r. d \<noteq> Fin r"
  shows "\<exists>t'. get_double F (show_double d @ t) = (Fin 0, True, t')"
  using assms
  by (cases d) (auto simp: show_double_def get_double_def split_sign_def get_fraction_def is_digit_def)

lemma extract_double_special [parse_simps]:
  assumes "\<forall>r. d \<noteq> Fin r"
  shows "fst (extract_double F \<lparr>rest = show_double d @ t, failbit = False\<rparr> old) = Some (Fin 0)"
    and "failbit (snd (extract_double F \<lparr>rest = show_double d @ t, failbit = False\<rparr> old))"
  using get_double_special[OF assms, of F t]
  by (auto simp: extract_double_def sentry_show_double)

lemma extract_double_failed [parse_simps]: "failbit s \<Longrightarrow> extract_double F s old = (old, s)"
  by (simp add: extract_double_def sentry_def)

section \<open>How much six digits lose\<close>

lemma round_half_even_error: "\<bar>of_int (round_half_even q) - q\<bar> \<le> 1 / 2"
proof -
  have "of_int \<lfloor>q\<rfloor> \<le> q" "q < of_int \<lfloor>q\<rfloor> + 1" using floor_correct[of q] by simp_all
  then show ?thesis by (auto simp: round_half_even_def Let_def abs_le_iff)
qed

lemma sig6_value:
  assumes "0 < r" "sig6 r = (m, X)"
  shows "of_nat m * pow10 (X - 5)
         = of_int (round_half_even (r * pow10 (5 - dec_exp r))) * pow10 (dec_exp r - 5)"
proof -
  let ?n = "round_half_even (r * pow10 (5 - dec_exp r))"
  have "0 \<le> ?n" using round_half_even_bounds(1)[of 0 "r * pow10 (5 - dec_exp r)"] assms(1)
    by (simp add: less_imp_le)
  moreover have "nat ?n = 10 ^ 6 \<Longrightarrow> ?n = 10 ^ 6" by simp
  moreover have "pow10 (dec_exp r + 1 - 5) * 10 ^ 5 = pow10 (dec_exp r - 5) * 10 ^ 6"
    using pow10_add[of "dec_exp r - 5" 1] by (simp add: pow10_def[of 1] algebra_simps)
  ultimately show ?thesis
    using assms(2) by (auto simp: sig6_def Let_def mult.commute split: if_splits)
qed

lemma round6_error_pos:
  assumes "0 < r"
  shows "\<bar>round6 r - r\<bar> \<le> r / 200000"
proof -
  obtain m X where mX: "sig6 r = (m, X)" by (cases "sig6 r")
  let ?E = "dec_exp r" and ?n = "round_half_even (r * pow10 (5 - dec_exp r))"
  have cancel: "pow10 (5 - ?E) * pow10 (?E - 5) = 1" by (simp add: pow10_add[symmetric])
  have "round6 r - r = (of_int ?n - r * pow10 (5 - ?E)) * pow10 (?E - 5)"
    using assms mX cancel by (simp add: round6_def sig6_value[OF assms mX] left_diff_distrib mult.assoc)
  then have "\<bar>round6 r - r\<bar> = \<bar>of_int ?n - r * pow10 (5 - ?E)\<bar> * pow10 (?E - 5)"
    by (simp add: abs_mult less_imp_le)
  also have "\<dots> \<le> 1 / 2 * pow10 (?E - 5)"
    by (rule mult_right_mono[OF round_half_even_error]) (simp add: less_imp_le)
  also have "\<dots> \<le> r / 200000"
    using dec_exp_correct[OF assms] by (simp add: pow10_diff pow10_def[of 5])
  finally show ?thesis .
qed

text \<open>The text of a number is within five parts in a million of the number.\<close>

lemma round6_error: "\<bar>round6 r - r\<bar> \<le> \<bar>r\<bar> / 200000"
proof -
  consider "r = 0" | "0 < r" | "r < 0" by linarith
  then show ?thesis
  proof cases
    case 3
    then have "round6 r = - round6 (- r)" by (simp add: round6_def)
    with 3 round6_error_pos[of "- r"] show ?thesis by (simp add: abs_minus_commute)
  qed (use round6_error_pos[of r] in \<open>auto simp: round6_def\<close>)
qed

section \<open>Accumulators\<close>

text \<open>
  The accumulators of Boost are a parameter: a set is the sequence of samples pushed into it,
  and the statistics are functions of that sequence.
\<close>

record acc =
  acc_min :: "double list \<Rightarrow> double"
  acc_max :: "double list \<Rightarrow> double"
  acc_mean :: "double list \<Rightarrow> double"
  acc_variance :: "double list \<Rightarrow> double"

text \<open>
  One instance of each parameter: arithmetic that does not round, with a square root that is exact
  on squares of small integers, and the statistics of Boost over it (its variance divides by
  the number of samples).
\<close>

definition exact_fp :: fp where
  "exact_fp = \<lparr>rnd = Fin, fsqrt = (\<lambda>d. case find (\<lambda>k. d = Fin (of_nat (k * k))) [0..<10] of
     Some k \<Rightarrow> Fin (of_nat k) | None \<Rightarrow> NaN False), nan_sign = False\<rparr>"

definition mean_of :: "rat list \<Rightarrow> rat" where
  "mean_of xs = sum_list xs / of_nat (length xs)"

definition variance_of :: "rat list \<Rightarrow> rat" where
  "variance_of xs = sum_list (map (\<lambda>x. (x - mean_of xs)\<^sup>2) xs) / of_nat (length xs)"

primrec fin_val :: "double \<Rightarrow> rat" where
  "fin_val (Fin r) = r" | "fin_val (Infinite b) = 0" | "fin_val (NaN b) = 0"

definition exact_acc :: acc where
  "exact_acc = \<lparr>
     acc_min = (\<lambda>ds. if ds = [] then Fin dbl_max else Fin (foldr min (map fin_val (tl ds)) (fin_val (hd ds)))),
     acc_max = (\<lambda>ds. if ds = [] then Fin (- dbl_max) else Fin (foldr max (map fin_val (tl ds)) (fin_val (hd ds)))),
     acc_mean = (\<lambda>ds. if ds = [] then NaN True else Fin (mean_of (map fin_val ds))),
     acc_variance = (\<lambda>ds. if ds = [] then NaN True else Fin (variance_of (map fin_val ds)))\<rparr>"

end
