(* ===== verification/Controller.thy ===== *)
theory Controller
  imports Barrier Doubles
begin

text \<open>
  The controller (controller.cpp): it waits for the listeners, tells them to start processes,
  waits for the processes, tells them to open WebSocket connections, and aggregates the results
  they report. The operations follow the program's \<open>main\<close> from top to bottom.
\<close>

section \<open>Integer arithmetic\<close>

text \<open>Arithmetic on \<open>int\<close> whose result may not fit: signed overflow is a fault.\<close>

definition add_int :: "int \<Rightarrow> int \<Rightarrow> ('w, int) prog" where
  "add_int a b = (if int_range (a + b) then returnM (a + b) else throwM Signed_overflow)"

definition mul_int :: "int \<Rightarrow> int \<Rightarrow> ('w, int) prog" where
  "mul_int a b = (if int_range (a * b) then returnM (a * b) else throwM Signed_overflow)"

section \<open>Configuration\<close>

record config =
  machines :: int
  processes :: int
  instances :: int
  interval :: int
  messages :: int
  message_length :: int
  bwBytes :: int
  send_messages :: bool
  randomized_interval :: bool

definition default_config :: config where
  "default_config = \<lparr>machines = 1, processes = 100, instances = 75, interval = 60, messages = 12,
     message_length = 240, bwBytes = 4000000, send_messages = True, randomized_interval = True\<rparr>"

definition iterations :: nat where
  "iterations = 30"

definition conf_array :: "config list" where
  "conf_array = map (\<lambda>i. default_config\<lparr>machines := int i + 1\<rparr>) [0..<iterations]"

section \<open>Sockets\<close>

datatype ctl_sock = Publisher | Syncservice | Instance_syncservice | Receiver

type_synonym ctl = "ctl_sock net"

text \<open>The object representation of an \<open>int\<close>: four bytes, least significant first.\<close>

definition int_bytes :: "int \<Rightarrow> bytes" where
  "int_bytes i = map (\<lambda>k. char_of (nat (i div 256 ^ k mod 256))) [0..<4]"

definition open_sockets :: "(ctl, unit) prog" where
  "open_sockets =
     thenM (socket_open Publisher ZMQ_PUB)
    (thenM (socket_bind Publisher ''tcp://*:5561'')
    (thenM (socket_open Syncservice ZMQ_REP)
    (thenM (socket_setsockopt Syncservice ZMQ_RCVTIMEO (int_bytes 5000))
    (thenM (socket_bind Syncservice ''tcp://*:5562'')
    (thenM (socket_open Instance_syncservice ZMQ_REP)
    (thenM (socket_setsockopt Instance_syncservice ZMQ_RCVTIMEO (int_bytes 5000))
    (thenM (socket_bind Instance_syncservice ''tcp://*:5563'')
    (thenM (socket_open Receiver ZMQ_PULL)
    (socket_bind Receiver ''tcp://*:5564'')))))))))"

text \<open>The destructors at the end of \<open>main\<close>, in reverse order of construction.\<close>

definition close_sockets :: "(ctl, unit) prog" where
  "close_sockets =
     thenM (socket_close Receiver)
    (thenM (socket_close Instance_syncservice)
    (thenM (socket_close Syncservice)
    (socket_close Publisher)))"

section \<open>The two barriers\<close>

function sync_slaves :: "int \<Rightarrow> int \<Rightarrow> (ctl, int) prog" where
  "sync_slaves target subscribers w =
     (if subscribers < target
      then bindM (socket_recv Syncservice) (\<lambda>ret w1.
             if \<not> fst ret
             then bindM (s_send Publisher ''HELLO_LISTENER'') (\<lambda>_ w2. sync_slaves target subscribers w2) w1
             else bindM (s_send Syncservice []) (\<lambda>_ w2. sync_slaves target (subscribers + 1) w2) w1) w
      else Ret subscribers w)"
  by pat_completeness auto
termination
  by (relation "measure (\<lambda>(target, k, w). length (inbox w Syncservice))")
    (auto dest!: socket_recv_shrinks s_send_inbox)

function sync_processes :: "int \<Rightarrow> int \<Rightarrow> (ctl, int) prog" where
  "sync_processes target n w =
     (if n < target
      then bindM (socket_recv Instance_syncservice) (\<lambda>ret w1.
             if \<not> fst ret
             then bindM (s_send Publisher ''HELLO_SOCKET'') (\<lambda>_ w2. sync_processes target n w2) w1
             else bindM (s_send Instance_syncservice []) (\<lambda>_ w2. sync_processes target (n + 1) w2) w1) w
      else Ret n w)"
  by pat_completeness auto
termination
  by (relation "measure (\<lambda>(target, k, w). length (inbox w Instance_syncservice))")
    (auto dest!: socket_recv_shrinks s_send_inbox)

declare sync_slaves.simps [simp del] sync_processes.simps [simp del]

section \<open>Broadcasts\<close>

definition start_processes :: "config \<Rightarrow> (ctl, bool) prog" where
  "start_processes c =
     bindM (s_sendmore Publisher ''StartProcesses'') (\<lambda>_.
     bindM (s_sendmore Publisher (to_string (processes c))) (\<lambda>_.
     s_send Publisher []))"

definition server_uri :: string where
  "server_uri = ''wss://54.84.134.93:9002''"

definition start_websockets :: "config \<Rightarrow> (ctl, bool) prog" where
  "start_websockets c =
     bindM (s_sendmore Publisher ''StartWebsockets'') (\<lambda>_.
     bindM (s_sendmore Publisher server_uri) (\<lambda>_.
     bindM (s_sendmore Publisher (to_string (instances c))) (\<lambda>_.
     bindM (s_sendmore Publisher (to_string_bool (send_messages c))) (\<lambda>_.
     bindM (s_sendmore Publisher (to_string_bool (randomized_interval c))) (\<lambda>_.
     bindM (s_sendmore Publisher (to_string (interval c))) (\<lambda>_.
     bindM (s_sendmore Publisher (to_string (messages c))) (\<lambda>_.
     bindM (s_sendmore Publisher (to_string (message_length c))) (\<lambda>_.
     s_send Publisher []))))))))"

section \<open>Results\<close>

text \<open>The variables a result line is read into; \<open>None\<close> is a variable never assigned.\<close>

record result_vars =
  rv_type :: string
  rv_count :: "int option"
  rv_min :: "double option"
  rv_max :: "double option"
  rv_mean :: "double option"
  rv_variance :: "double option"
  rv_setup :: "double option"

definition parse_result :: "fp \<Rightarrow> string \<Rightarrow> result_vars" where
  "parse_result F stats =
     (let (ty, s1) = extract_string (istringstream stats) [];
          (cnt, s2) = extract_int s1 None;
          (mi, s3) = extract_double F s2 None;
          (ma, s4) = extract_double F s3 None;
          (me, s5) = extract_double F s4 None;
          (va, s6) = extract_double F s5 None;
          (se, s7) = extract_double F s6 None
      in \<lparr>rv_type = ty, rv_count = cnt, rv_min = mi, rv_max = ma, rv_mean = me,
          rv_variance = va, rv_setup = se\<rparr>)"

record tally =
  clientsFinished :: int
  clientsDied :: int
  resultsReceived :: int
  connectionsDied :: int
  connectionsSucceeded :: int
  meansum :: double
  variancesum :: double
  totalcount :: int
  samples :: int
  setup_stats :: "double list"

definition empty_tally :: tally where
  "empty_tally = \<lparr>clientsFinished = 0, clientsDied = 0, resultsReceived = 0, connectionsDied = 0,
     connectionsSucceeded = 0, meansum = Fin 0, variancesum = Fin 0, totalcount = 0, samples = 0,
     setup_stats = []\<rparr>"

definition count_connection :: "config \<Rightarrow> result_vars \<Rightarrow> tally \<Rightarrow> ('w, tally) prog" where
  "count_connection c r t =
     (if rv_type r \<noteq> ''success'' then returnM (t\<lparr>connectionsDied := connectionsDied t + 1\<rparr>)
      else bindM (readM (rv_count r)) (\<lambda>cnt.
        if cnt = messages c then returnM (t\<lparr>connectionsSucceeded := connectionsSucceeded t + 1\<rparr>)
        else returnM (t\<lparr>connectionsDied := connectionsDied t + 1\<rparr>)))"

definition add_latency :: "fp \<Rightarrow> result_vars \<Rightarrow> tally \<Rightarrow> ('w, tally) prog" where
  "add_latency F r t =
     bindM (readM (rv_count r)) (\<lambda>cnt.
     if cnt > 0 then
       bindM (readM (rv_mean r)) (\<lambda>mean.
       bindM (add_int (totalcount t) cnt) (\<lambda>total.
       bindM (readM (rv_variance r)) (\<lambda>variance.
       returnM (t\<lparr>meansum := dadd F (meansum t) (dmul F mean (double_of_int cnt)),
                  totalcount := total,
                  samples := samples t + 1,
                  variancesum := dadd F (variancesum t) (dmul F (double_of_int (cnt - 1)) variance)\<rparr>))))
     else returnM t)"

definition add_result :: "fp \<Rightarrow> config \<Rightarrow> string \<Rightarrow> tally \<Rightarrow> ('w, tally) prog" where
  "add_result F c stats t =
     (let r = parse_result F stats;
          t1 = t\<lparr>resultsReceived := resultsReceived t + 1\<rparr>
      in bindM (readM (rv_setup r)) (\<lambda>setup.
         bindM (count_connection c r (t1\<lparr>setup_stats := setup_stats t1 @ [setup]\<rparr>))
               (add_latency F r)))"

definition add_finished :: "string \<Rightarrow> tally \<Rightarrow> tally" where
  "add_finished exit_status t =
     (if exit_status = ''0'' then t\<lparr>clientsFinished := clientsFinished t + 1\<rparr>
      else t\<lparr>clientsDied := clientsDied t + 1\<rparr>)"

lemma add_result_same_world: "add_result F c stats t w = Ret t' w' \<Longrightarrow> w' = w"
  by (auto simp: add_result_def count_connection_def add_latency_def add_int_def Let_def
      readM_def prog_simps split: option.splits if_splits outcome.splits)

function collect :: "fp \<Rightarrow> config \<Rightarrow> int \<Rightarrow> tally \<Rightarrow> (ctl, tally) prog" where
  "collect F c clients t w =
     (if clientsFinished t + clientsDied t < clients
      then bindM (s_recv Receiver) (\<lambda>status w1.
             if status = ''Finished''
             then bindM (s_recv Receiver) (\<lambda>name.
                  bindM (s_recv Receiver) (\<lambda>exit_status w3.
                  collect F c clients (add_finished exit_status t) w3)) w1
             else if status = ''Result''
             then bindM (s_recv Receiver) (\<lambda>stats.
                  bindM (s_recv Receiver) (\<lambda>delimiter.
                  bindM (add_result F c stats t) (\<lambda>t' w3. collect F c clients t' w3))) w1
             else collect F c clients t w1) w
      else Ret t w)"
  by pat_completeness auto
termination
  by (relation "measure (\<lambda>(F, c, n, t, w). length (inbox w Receiver))")
    (auto dest!: s_recv_shrinks add_result_same_world)

declare collect.simps [simp del]

section \<open>The report and the program\<close>

record report =
  rep_finished :: int
  rep_died :: int
  rep_succeeded :: int
  rep_connections_died :: int
  rep_setup_mean :: double
  rep_setup_sd :: double
  rep_mean :: double
  rep_sd :: double

definition overallMean :: "fp \<Rightarrow> tally \<Rightarrow> double" where
  "overallMean F t = ddiv F (meansum t) (double_of_int (totalcount t))"

definition overallVariance :: "fp \<Rightarrow> tally \<Rightarrow> double" where
  "overallVariance F t = ddiv F (variancesum t) (double_of_int (totalcount t - samples t))"

definition make_report :: "fp \<Rightarrow> acc \<Rightarrow> tally \<Rightarrow> report" where
  "make_report F A t = \<lparr>rep_finished = clientsFinished t, rep_died = clientsDied t,
     rep_succeeded = connectionsSucceeded t, rep_connections_died = connectionsDied t,
     rep_setup_mean = acc_mean A (setup_stats t),
     rep_setup_sd = fsqrt F (acc_variance A (setup_stats t)),
     rep_mean = overallMean F t, rep_sd = fsqrt F (overallVariance F t)\<rparr>"

definition run_iteration :: "fp \<Rightarrow> acc \<Rightarrow> config \<Rightarrow> (ctl, report) prog" where
  "run_iteration F A c =
     bindM (sync_slaves (machines c) 0) (\<lambda>subscribers.
     bindM (start_processes c) (\<lambda>_.
     bindM (mul_int (machines c) (processes c)) (\<lambda>clients.
     bindM (sync_processes clients 0) (\<lambda>n.
     bindM (start_websockets c) (\<lambda>_.
     bindM (mul_int clients (instances c)) (\<lambda>resultsExpected.
     bindM (collect F c clients empty_tally) (\<lambda>t.
     returnM (make_report F A t))))))))"

function run_iterations :: "fp \<Rightarrow> acc \<Rightarrow> config list \<Rightarrow> int \<Rightarrow> report list \<Rightarrow> (ctl, report list) prog" where
  "run_iterations F A conf iteration reports w =
     (if iteration < 17
      then bindM (run_iteration F A (conf ! nat iteration)) (\<lambda>r w1.
             run_iterations F A conf (iteration + 2) (reports @ [r]) w1) w
      else Ret reports w)"
  by pat_completeness auto
termination
  by (relation "measure (\<lambda>(F, A, conf, i, rs, w). nat (17 - i))") auto

declare run_iterations.simps [simp del]

definition controller_main :: "fp \<Rightarrow> acc \<Rightarrow> (ctl, report list) prog" where
  "controller_main F A =
     thenM open_sockets
    (bindM (run_iterations F A conf_array 16 []) (\<lambda>reports.
     bindM (s_send Publisher ''END'') (\<lambda>_.
     thenM close_sockets (returnM reports))))"

section \<open>The barriers as instances of the interface\<close>

interpretation listeners: sync_barrier sync_slaves Syncservice Publisher "''HELLO_LISTENER''"
proof
  show "Syncservice \<noteq> Publisher" by simp
  show "sync_slaves target k w =
    (if k < target
     then bindM (socket_recv Syncservice) (\<lambda>(ret, message).
            if \<not> ret then bindM (s_send Publisher ''HELLO_LISTENER'') (\<lambda>_. sync_slaves target k)
            else bindM (s_send Syncservice []) (\<lambda>_. sync_slaves target (k + 1))) w
     else Ret k w)" for target k w
    by (subst sync_slaves.simps) (simp add: bindM_def split_def split: outcome.split)
qed

interpretation workers: sync_barrier sync_processes Instance_syncservice Publisher "''HELLO_SOCKET''"
proof
  show "Instance_syncservice \<noteq> Publisher" by simp
  show "sync_processes target k w =
    (if k < target
     then bindM (socket_recv Instance_syncservice) (\<lambda>(ret, message).
            if \<not> ret then bindM (s_send Publisher ''HELLO_SOCKET'') (\<lambda>_. sync_processes target k)
            else bindM (s_send Instance_syncservice []) (\<lambda>_. sync_processes target (k + 1))) w
     else Ret k w)" for target k w
    by (subst sync_processes.simps) (simp add: bindM_def split_def split: outcome.split)
qed

end
