(* ===== verification/Controller_Props.thy ===== *)
theory Controller_Props
  imports Controller
begin

text \<open>
  What the controller guarantees: the order of its broadcasts, the discipline of its reply
  sockets, what it publishes, how it reads the stream of results, and what its report says of
  the latencies the clients measured.
\<close>

section \<open>Events of the operations\<close>

lemma to_string_last: "is_digit (last (to_string i))"
  using show_nat_digits[of "last (show_nat n)" n for n]
  by (simp add: to_string_def)

lemma to_string_not_word:
  assumes "u \<noteq> []" "\<not> is_digit (last u)"
  shows "to_string i \<noteq> u" "u \<noteq> to_string i"
  using assms to_string_last[of i] by auto

lemma command_words [simp]:
  "to_string i \<noteq> ''StartWebsockets''" "to_string i \<noteq> ''StartProcesses''"
  "''StartWebsockets'' \<noteq> to_string i" "''StartProcesses'' \<noteq> to_string i"
  by (rule to_string_not_word; simp add: is_digit_def)+

text \<open>The messages an operation may publish.\<close>

definition publishes_only :: "(bytes \<Rightarrow> bool) \<Rightarrow> ctl_sock event \<Rightarrow> bool" where
  "publishes_only P e \<longleftrightarrow> (case e of Called Publisher (Zmq_msg_send b f) rc \<Rightarrow> P b | _ \<Rightarrow> True)"

lemma publishes_only_simps [simp]:
  "publishes_only P (Called Publisher (Zmq_msg_send b f) rc) \<longleftrightarrow> P b"
  "n \<noteq> Publisher \<Longrightarrow> publishes_only P (Called n c rc)"
  "publishes_only P (Received n b f)" "publishes_only P (Nothing_received n e)"
  by (auto simp: publishes_only_def split: ctl_sock.splits)

lemma emits_sync_slaves: "emits (publishes_only (\<lambda>b. b = ''HELLO_LISTENER'')) (sync_slaves target k)"
  by (rule emits_mono[OF listeners.emits_barrier_event])
    (auto simp: listeners.barrier_event_def publishes_only_def
      split: event.splits api_call.splits ctl_sock.splits)

lemma emits_sync_processes: "emits (publishes_only (\<lambda>b. b = ''HELLO_SOCKET'')) (sync_processes target k)"
  by (rule emits_mono[OF workers.emits_barrier_event])
    (auto simp: workers.barrier_event_def publishes_only_def
      split: event.splits api_call.splits ctl_sock.splits)

lemma emits_start_processes:
  "emits (publishes_only (\<lambda>b. b \<noteq> ''StartWebsockets'')) (start_processes c)"
  unfolding start_processes_def by (intro emits_bind emits_s_send) simp_all

lemma emits_mul_int [intro]: "emits E (mul_int a b)"
  by (simp add: mul_int_def)

lemma emits_add_result: "emits E (add_result F c stats t)"
  unfolding add_result_def count_connection_def add_latency_def add_int_def Let_def
  by (intro emits_bind emits_read emits_return emits_throw emits_if)

lemma emits_collect:
  assumes "\<And>b f. E (Received Receiver b f)" "\<And>e. E (Nothing_received Receiver e)"
  shows "emits E (collect F c n t)"
  (is "emits ?E _")
proof -
  have rcv: "emits ?E (s_recv Receiver)" using assms by (intro emits_s_recv)
  have "emits_at ?E (collect F c n t) w" for w
  proof (induction F c n t w rule: collect.induct)
    case (1 F c n t w)
    note IH = 1
    have rc: "emits_at ?E (s_recv Receiver) w'" for w' by (rule emits_atI[OF rcv])
    have ar: "emits_at ?E (add_result F c s t) w'" for s w' by (rule emits_atI[OF emits_add_result])
    show ?case
    proof (cases "clientsFinished t + clientsDied t < n")
      case True
      let ?body = "\<lambda>status w1.
             if status = ''Finished''
             then bindM (s_recv Receiver) (\<lambda>name. bindM (s_recv Receiver) (\<lambda>exit_status w3.
                  collect F c n (add_finished exit_status t) w3)) w1
             else if status = ''Result''
             then bindM (s_recv Receiver) (\<lambda>stats. bindM (s_recv Receiver) (\<lambda>delimiter.
                  bindM (add_result F c stats t) (\<lambda>t' w3. collect F c n t' w3))) w1
             else collect F c n t w1"
      have "emits_at ?E (bindM (s_recv Receiver) ?body) w"
      proof (rule emits_at_bind[OF rc])
        fix a w1 assume a: "s_recv Receiver w = Ret a w1"
        consider "a = ''Finished''" | "a = ''Result''" | "a \<noteq> ''Finished''" "a \<noteq> ''Result''" by blast
        then show "emits_at ?E (?body a) w1"
        proof cases
          case 1
          have "emits_at ?E (bindM (s_recv Receiver) (\<lambda>name. bindM (s_recv Receiver) (\<lambda>exit_status.
              collect F c n (add_finished exit_status t)))) w1"
            by (intro emits_at_bind rc IH(1)[OF True a 1])
          with 1 show ?thesis by (simp add: emits_at_def)
        next
          case 2
          have "emits_at ?E (bindM (s_recv Receiver) (\<lambda>stats. bindM (s_recv Receiver) (\<lambda>delimiter.
              bindM (add_result F c stats t) (collect F c n)))) w1"
            by (intro emits_at_bind rc ar IH(2)[OF True a _ 2]) (use 2 in simp_all)
          with 2 show ?thesis by (simp add: emits_at_def)
        next
          case 3
          with IH(3)[OF True a 3] show ?thesis by (simp add: emits_at_def)
        qed
      qed
      with True show ?thesis by (simp add: emits_at_def collect.simps[of F c n t w])
    next
      case False
      then show ?thesis by (simp add: emits_at_def collect.simps[of F c n t w])
    qed
  qed
  then show ?thesis by (simp add: emits_def)
qed

lemma emits_any:
  "emits (\<lambda>_. True) (sync_slaves target k)" "emits (\<lambda>_. True) (sync_processes target k)"
  "emits (\<lambda>_. True) (start_processes c)" "emits (\<lambda>_. True) (start_websockets c)"
  "emits (\<lambda>_. True) (collect F c n t)"
  using emits_mono[OF emits_sync_slaves] emits_mono[OF emits_sync_processes]
  by (auto simp: start_processes_def start_websockets_def intro!: emits_bind emits_s_send emits_collect)

text \<open>The rest of an iteration after each of its steps.\<close>

definition after_websockets :: "fp \<Rightarrow> acc \<Rightarrow> config \<Rightarrow> int \<Rightarrow> (ctl, report) prog" where
  "after_websockets F A c clients =
     bindM (mul_int clients (instances c)) (\<lambda>resultsExpected.
     bindM (collect F c clients empty_tally) (\<lambda>t. returnM (make_report F A t)))"

definition after_processes :: "fp \<Rightarrow> acc \<Rightarrow> config \<Rightarrow> (ctl, report) prog" where
  "after_processes F A c =
     bindM (mul_int (machines c) (processes c)) (\<lambda>clients.
     bindM (sync_processes clients 0) (\<lambda>n.
     bindM (start_websockets c) (\<lambda>_. after_websockets F A c clients)))"

lemma run_iteration_steps: "run_iteration F A c =
    bindM (sync_slaves (machines c) 0) (\<lambda>subscribers.
    bindM (start_processes c) (\<lambda>_. after_processes F A c))"
  by (simp add: run_iteration_def after_processes_def after_websockets_def)

lemma emits_after:
  "emits (\<lambda>_. True) (after_websockets F A c n)" "emits (\<lambda>_. True) (after_processes F A c)"
  unfolding after_processes_def after_websockets_def
  by (intro emits_bind emits_any emits_mul_int emits_return)+

lemma received_grows: "trace w' = trace w @ d \<Longrightarrow>
  length (received n (trace w')) = length (received n (trace w)) + length (received n d)"
  by simp

section \<open>The order of the broadcasts\<close>

text \<open>
  C4: in every run of an iteration, whatever the ZeroMQ library answers and wherever the run stops,
  the request to start processes is broadcast only after as many listeners as there are
  machines have sent their synchronisation request.
\<close>

theorem start_processes_after_listeners:
  assumes run: "trace (final_world (run_iteration F A c w))
      = trace w @ pre @ Called Publisher (Zmq_msg_send ''StartProcesses'' True) rc # post"
    and "0 \<le> machines c"
  shows "machines c \<le> int (length (received Syncservice pre))"
proof -
  let ?x = "Called Publisher (Zmq_msg_send ''StartProcesses'' True) rc"
  obtain k w1 d pre' where r: "sync_slaves (machines c) 0 w = Ret k w1" "trace w1 = trace w @ d" "pre = d @ pre'"
    by (rule bind_locate[OF emits_sync_slaves _ _ run[unfolded run_iteration_steps], where E' = "\<lambda>_. True"])
      (auto intro: emits_bind emits_any emits_after)
  from listeners.holds[OF r(1)] assms(2) received_grows[OF r(2), of Syncservice] r(3) show ?thesis by simp
qed

lemma start_processes_first:
  assumes "start_processes c w = Ret a w'"
  obtains rc u where "trace w' = trace w @ Called Publisher (Zmq_msg_send ''StartProcesses'' True) rc # u"
proof -
  from assms obtain b w1 where s: "s_sendmore Publisher ''StartProcesses'' w = Ret b w1"
    and k: "bindM (s_sendmore Publisher (to_string (processes c))) (\<lambda>_. s_send Publisher []) w1 = Ret a w'"
    unfolding start_processes_def by (auto simp: bindM_Ret_iff)
  from s obtain rc where 1: "trace w1 = trace w @ [Called Publisher (Zmq_msg_send ''StartProcesses'' True) rc]"
    by (auto simp: s_sendmore_def socket_send_def zmq_call_def prog_simps split: answer.splits if_splits)
  have "emits (\<lambda>_. True) (bindM (s_sendmore Publisher (to_string (processes c))) (\<lambda>_. s_send Publisher []))"
    by (intro emits_bind emits_s_send) simp_all
  from emitsD[OF this, of w1] k obtain u where "trace w' = trace w1 @ u" by auto
  with 1 that show thesis by simp
qed

lemma mul_int_Ret: "mul_int a b w = Ret k w' \<Longrightarrow> k = a * b \<and> w' = w"
  by (auto simp: mul_int_def prog_simps split: if_splits)

text \<open>
  C3: the request to open WebSocket connections is broadcast only after the request to start
  processes, which itself came after the listeners' barrier, and after as many processes as the
  configuration starts in all have synchronised since.
\<close>

theorem start_websockets_after_processes:
  assumes run: "trace (final_world (run_iteration F A c w))
      = trace w @ pre @ Called Publisher (Zmq_msg_send ''StartWebsockets'' True) rc # post"
    and nonneg: "0 \<le> machines c" "0 \<le> processes c"
  shows "\<exists>before rc' after. pre = before @ Called Publisher (Zmq_msg_send ''StartProcesses'' True) rc' # after
         \<and> machines c \<le> int (length (received Syncservice before))
         \<and> machines c * processes c \<le> int (length (received Instance_syncservice after))"
proof -
  let ?x = "Called Publisher (Zmq_msg_send ''StartWebsockets'' True) rc"
  obtain k w1 d1 p1 where 1: "sync_slaves (machines c) 0 w = Ret k w1" "trace w1 = trace w @ d1" "pre = d1 @ p1"
    and t1: "trace (final_world (bindM (start_processes c) (\<lambda>_. after_processes F A c) w1)) = trace w1 @ p1 @ ?x # post"
    by (rule bind_locate[OF emits_sync_slaves _ _ run[unfolded run_iteration_steps], where E' = "\<lambda>_. True"])
      (auto intro: emits_bind emits_any emits_after)
  obtain b w2 d2 p2 where 2: "start_processes c w1 = Ret b w2" "trace w2 = trace w1 @ d2" "p1 = d2 @ p2"
    and t2: "trace (final_world (after_processes F A c w2)) = trace w2 @ p2 @ ?x # post"
    by (rule bind_locate[OF emits_start_processes _ _ t1, where E' = "\<lambda>_. True"]) (auto intro: emits_after)
  obtain n w3 d3 p3 where 3: "mul_int (machines c) (processes c) w2 = Ret n w3" "trace w3 = trace w2 @ d3" "p2 = d3 @ p3"
    and t3: "trace (final_world (bindM (sync_processes n 0) (\<lambda>_. bindM (start_websockets c) (\<lambda>_. after_websockets F A c n)) w3))
      = trace w3 @ p3 @ ?x # post"
    by (rule bind_locate[OF emits_mul_int[of "\<lambda>_. False"] _ _ t2[unfolded after_processes_def], where E' = "\<lambda>_. True"])
      (auto intro!: emits_bind emits_any emits_after)
  obtain m w4 d4 p4 where 4: "sync_processes n 0 w3 = Ret m w4" "trace w4 = trace w3 @ d4" "p3 = d4 @ p4"
    by (rule bind_locate[OF emits_sync_processes _ _ t3, where E' = "\<lambda>_. True"])
      (auto intro: emits_bind emits_any emits_after)
  obtain rc' u where sp: "trace w2 = trace w1 @ Called Publisher (Zmq_msg_send ''StartProcesses'' True) rc' # u"
    by (rule start_processes_first[OF 2(1)])
  have "pre = d1 @ Called Publisher (Zmq_msg_send ''StartProcesses'' True) rc' # u @ d3 @ d4 @ p4"
    using 1(3) 2(2,3) 3(3) 4(3) sp by simp
  moreover have "machines c \<le> int (length (received Syncservice d1))"
    using listeners.holds[OF 1(1)] nonneg(1) received_grows[OF 1(2), of Syncservice] by simp
  moreover have "machines c * processes c \<le> int (length (received Instance_syncservice d4))"
    using workers.holds[OF 4(1)] mul_int_Ret[OF 3(1)] nonneg received_grows[OF 4(2), of Instance_syncservice] by simp
  ultimately show ?thesis by fastforce
qed

section \<open>The reply sockets\<close>

definition disciplined :: "ctl \<Rightarrow> bool" where
  "disciplined w \<longleftrightarrow> api_ok w \<and> rep_run Syncservice False (trace w) = Some False
     \<and> rep_run Instance_syncservice False (trace w) = Some False"

lemma preserves_neutral:
  assumes "emits (neutral Syncservice) p" "emits (neutral Instance_syncservice) p"
  shows "preserves disciplined p"
  using emits_neutral_keeps[OF emits_atI[OF assms(1)]] emits_neutral_keeps[OF emits_atI[OF assms(2)]]
    emits_at_api_ok[OF emits_atI[OF assms(1)]]
  by (simp add: preserves_def disciplined_def)

lemma sync_slaves_disciplined: "preserves disciplined (sync_slaves target k)"
proof -
  have e: "emits (neutral Instance_syncservice) (sync_slaves target k)"
    by (rule emits_mono[OF listeners.emits_barrier_event])
      (auto simp: listeners.barrier_event_def split: event.splits)
  then show ?thesis
    using listeners.disciplined emits_neutral_keeps[OF emits_atI[OF e]] emits_at_api_ok[OF emits_atI[OF e]]
    by (simp add: preserves_def disciplined_def)
qed

lemma sync_processes_disciplined: "preserves disciplined (sync_processes target k)"
proof -
  have e: "emits (neutral Syncservice) (sync_processes target k)"
    by (rule emits_mono[OF workers.emits_barrier_event])
      (auto simp: workers.barrier_event_def split: event.splits)
  then show ?thesis
    using workers.disciplined emits_neutral_keeps[OF emits_atI[OF e]] emits_at_api_ok[OF emits_atI[OF e]]
    by (simp add: preserves_def disciplined_def)
qed

lemma broadcasts_disciplined:
  "preserves disciplined (start_processes c)" "preserves disciplined (start_websockets c)"
  "preserves disciplined (s_send Publisher b)" "preserves disciplined (collect F c n t)"
  "preserves disciplined (mul_int i j)" "preserves disciplined open_sockets"
  "preserves disciplined close_sockets"
  unfolding start_processes_def start_websockets_def open_sockets_def close_sockets_def
  by (intro preserves_neutral emits_bind emits_then emits_s_send emits_collect emits_mul_int
      emits_socket_setup emits_socket_open emits_socket_close; simp)+

lemma run_iteration_disciplined: "preserves disciplined (run_iteration F A c)"
  unfolding run_iteration_def
  by (intro preserves_bind preserves_return sync_slaves_disciplined sync_processes_disciplined
      broadcasts_disciplined)

lemma run_iterations_disciplined: "preserves disciplined (run_iterations F A conf i rs)"
proof -
  have "disciplined w \<Longrightarrow> disciplined (final_world (run_iterations F A conf i rs w))" for w
  proof (induction F A conf i rs w rule: run_iterations.induct)
    case (1 F A conf i rs w)
    show ?case
    proof (cases "i < 17 \<and> (\<exists>r w1. run_iteration F A (conf ! nat i) w = Ret r w1)")
      case True
      then obtain r w1 where r: "i < 17" "run_iteration F A (conf ! nat i) w = Ret r w1" by blast
      with 1 preserves_RetD[OF run_iteration_disciplined] have
        "disciplined (final_world (run_iterations F A conf (i + 2) (rs @ [r]) w1))" by blast
      with r show ?thesis by (simp add: run_iterations.simps[of F A conf i] bindM_def)
    next
      case False
      then show ?thesis
        using preservesD[OF run_iteration_disciplined "1.prems", of F A "conf ! nat i"] "1.prems"
        by (cases "run_iteration F A (conf ! nat i) w")
          (auto simp: run_iterations.simps[of F A conf i] bindM_def)
    qed
  qed
  then show ?thesis by (simp add: preserves_def)
qed


section \<open>The stream of results\<close>

text \<open>
  What the workers and listeners push to the controller, as whole multipart messages: the end
  of a process with its status (three parts and the empty delimiter) and the statistics of a
  connection (two parts and the delimiter).
\<close>

datatype sink_msg = Finished_msg bytes | Result_msg bytes

primrec frames :: "sink_msg \<Rightarrow> delivery list" where
  "frames (Finished_msg status) =
     [Delivered ''Finished'' True, Delivered [] True, Delivered status True, Delivered [] False]"
| "frames (Result_msg stats) = [Delivered ''Result'' True, Delivered stats True, Delivered [] False]"

text \<open>The specification of the collection: message by message, until all clients are accounted for.\<close>

primrec tally_spec :: "fp \<Rightarrow> config \<Rightarrow> int \<Rightarrow> sink_msg list \<Rightarrow> tally \<Rightarrow> (tally, unit) outcome" where
  "tally_spec F c n [] t = (if clientsFinished t + clientsDied t < n then Stuck () else Ret t ())"
| "tally_spec F c n (m # ms) t =
     (if clientsFinished t + clientsDied t < n
      then case m of
             Finished_msg status \<Rightarrow> tally_spec F c n ms (add_finished status t)
           | Result_msg stats \<Rightarrow>
               (case add_result F c stats t () of
                  Ret t' u \<Rightarrow> tally_spec F c n ms t'
                | Throw e u \<Rightarrow> Throw e ()
                | Stuck u \<Rightarrow> Stuck ())
      else Ret t ())"

lemma add_result_elsewhere:
  "add_result F c stats t w = (case add_result F c stats t () of
       Ret t' u \<Rightarrow> Ret t' w | Throw e u \<Rightarrow> Throw e w | Stuck u \<Rightarrow> Stuck w)"
  by (simp add: add_result_def count_connection_def add_latency_def add_int_def Let_def
      readM_def prog_simps split: option.splits)

lemma collect_done: "\<not> clientsFinished t + clientsDied t < n \<Longrightarrow> collect F c n t w = Ret t w"
  by (subst collect.simps) simp

lemma collect_steps:
  assumes "clientsFinished t + clientsDied t < n"
  shows "inbox w Receiver = [] \<Longrightarrow> collect F c n t w = Stuck w"
    and "inbox w Receiver = Delivered [] f # ds \<Longrightarrow>
      collect F c n t w = collect F c n t (took Receiver (Delivered [] f) ds w)"
    and "inbox w Receiver = frames (Finished_msg st) @ ds \<Longrightarrow>
      \<exists>w'. collect F c n t w = collect F c n (add_finished st t) w'
        \<and> inbox w' = (inbox w)(Receiver := Delivered [] False # ds)"
    and "inbox w Receiver = frames (Result_msg stats) @ ds \<Longrightarrow>
      \<exists>w'. collect F c n t w = bindM (add_result F c stats t) (collect F c n) w'
        \<and> inbox w' = (inbox w)(Receiver := ds)"
proof -
  note unf = collect.simps[of F c n t w]
  show "inbox w Receiver = [] \<Longrightarrow> collect F c n t w = Stuck w"
    using assms by (simp add: unf prog_simps)
  show "inbox w Receiver = Delivered [] f # ds \<Longrightarrow>
      collect F c n t w = collect F c n t (took Receiver (Delivered [] f) ds w)"
    using assms by (simp add: unf exec_simps)
  show "\<exists>w'. collect F c n t w = collect F c n (add_finished st t) w'
        \<and> inbox w' = (inbox w)(Receiver := Delivered [] False # ds)"
    if "inbox w Receiver = frames (Finished_msg st) @ ds"
    using assms that
    by (intro exI conjI) (simp add: unf exec_simps, simp)
  show "\<exists>w'. collect F c n t w = bindM (add_result F c stats t) (collect F c n) w'
        \<and> inbox w' = (inbox w)(Receiver := ds)"
    if "inbox w Receiver = frames (Result_msg stats) @ ds"
    using assms that
    by (intro exI[of _ "took Receiver (Delivered [] False) ds
          (took Receiver (Delivered stats True) (Delivered [] False # ds)
            (took Receiver (Delivered ''Result'' True) (Delivered stats True # Delivered [] False # ds) w))"])
      (simp add: unf exec_simps)
qed

lemma collect_tally_spec:
  assumes "inbox w Receiver = lead @ concat (map frames ms)" "lead = [] \<or> lead = [Delivered [] False]"
  shows "forget (collect F c n t w) = tally_spec F c n ms t"
  using assms
proof (induction ms arbitrary: t w lead)
  case Nil
  then show ?case
    using collect_steps(2)[of t n w False "[]"]
      collect_steps(1)[of t n "took Receiver (Delivered [] False) [] w"]
    by (cases "clientsFinished t + clientsDied t < n") (auto simp: collect_done collect_steps(1))
next
  case (Cons m ms)
  show ?case
  proof (cases "clientsFinished t + clientsDied t < n")
    case False
    then show ?thesis by (simp add: collect_done)
  next
    case True
    define w0 where "w0 = (if lead = [] then w else took Receiver (Delivered [] False) (concat (map frames (m # ms))) w)"
    have w0: "collect F c n t w = collect F c n t w0" "inbox w0 Receiver = frames m @ concat (map frames ms)"
      using Cons.prems True by (auto simp: w0_def collect_steps(2))
    show ?thesis
    proof (cases m)
      case (Finished_msg st)
      with collect_steps(3)[OF True, of w0 st "concat (map frames ms)" F c] w0 obtain w1 where
        "collect F c n t w = collect F c n (add_finished st t) w1"
        "inbox w1 Receiver = [Delivered [] False] @ concat (map frames ms)" by auto
      with Cons.IH[of w1 "[Delivered [] False]"] True Finished_msg show ?thesis by simp
    next
      case (Result_msg s)
      with collect_steps(4)[OF True, of w0 s "concat (map frames ms)" F c] w0 obtain w1 where
        w1: "collect F c n t w = bindM (add_result F c s t) (collect F c n) w1"
        "inbox w1 Receiver = [] @ concat (map frames ms)" by auto
      with True Result_msg show ?thesis
        using Cons.IH[OF w1(2)]
        by (simp add: bindM_def add_result_elsewhere[of F c s t w1] split: outcome.split)
    qed
  qed
qed

text \<open>
  C6: the frame-level loop implements the message-level specification: whatever the messages,
  collecting their parts yields exactly the tally of the messages up to the one that accounts
  for the last client, a fault exactly when a message is faulty, and waits for ever exactly when
  the messages run out; the delimiter that a process's last message leaves in the socket does
  not disturb the next reading.
\<close>

theorem collect_refines_tally_spec:
  assumes "inbox w Receiver = concat (map frames ms)"
  shows "forget (collect F c n t w) = tally_spec F c n ms t"
  using collect_tally_spec[of w "[]" ms F c n t] assms by simp

section \<open>A complete iteration\<close>

definition start_processes_request :: "config \<Rightarrow> bytes list" where
  "start_processes_request c = [''StartProcesses'', to_string (processes c), []]"

definition start_websockets_request :: "config \<Rightarrow> bytes list" where
  "start_websockets_request c = [''StartWebsockets'', server_uri, to_string (instances c),
     to_string_bool (send_messages c), to_string_bool (randomized_interval c), to_string (interval c),
     to_string (messages c), to_string (message_length c), []]"

lemma broadcast_ok:
  assumes "api_ok w"
  shows "\<exists>w'. start_processes c w = Ret True w' \<and> api_ok w' \<and> inbox w' = inbox w
      \<and> sent Publisher (trace w') = sent Publisher (trace w) @ multipart (start_processes_request c)"
    and "\<exists>w'. start_websockets c w = Ret True w' \<and> api_ok w' \<and> inbox w' = inbox w
      \<and> sent Publisher (trace w') = sent Publisher (trace w) @ multipart (start_websockets_request c)"
  using assms
  by (simp_all add: start_processes_def start_websockets_def start_processes_request_def
      start_websockets_request_def exec_simps)

lemma mul_int_ok: "int_range (a * b) \<Longrightarrow> mul_int a b w = Ret (a * b) w"
  by (simp add: mul_int_def returnM_def)

lemma sent_publishes_only: "\<forall>e\<in>set t. publishes_only (\<lambda>b. False) e \<Longrightarrow> sent Publisher t = []"
proof (induction t)
  case (Cons e t)
  then have "sent_by Publisher e = []"
    by (cases "(Publisher, e)" rule: sent_by.cases) (auto simp: publishes_only_def)
  with Cons show ?case by simp
qed simp

lemma collect_publishes_nothing:
  "sent Publisher (trace (final_world (collect F c n t w))) = sent Publisher (trace w)"
proof -
  have "emits (publishes_only (\<lambda>b. False)) (collect F c n t)" by (rule emits_collect) simp_all
  then show ?thesis by (rule emitsD[of _ _ w]) (simp add: sent_publishes_only)
qed

lemma concat_replicate_singleton: "concat (replicate k [x]) = replicate k x"
  by (induction k) auto

lemma forget_Ret: "forget x = Ret a () \<longleftrightarrow> (\<exists>w. x = Ret a w)"
  by (cases x) auto

lemma run_iteration_run:
  assumes ok: "api_ok w"
    and listeners: "inbox w Syncservice = ds1 @ later1" "opens_with (machines c) ds1"
    and workers: "inbox w Instance_syncservice = ds2 @ later2" "opens_with (machines c * processes c) ds2"
    and results: "inbox w Receiver = concat (map frames ms)"
      "tally_spec F c (machines c * processes c) ms empty_tally = Ret t ()"
    and range: "int_range (machines c * processes c)" "int_range (machines c * processes c * instances c)"
  shows "\<exists>w'. run_iteration F A c w = Ret (make_report F A t) w'
    \<and> sent Publisher (trace w') = sent Publisher (trace w) @ concat (map multipart
        (replicate (length ds1 - requests ds1) [''HELLO_LISTENER''] @ [start_processes_request c]
         @ replicate (length ds2 - requests ds2) [''HELLO_SOCKET''] @ [start_websockets_request c]))"
proof -
  obtain w1 where 1: "sync_slaves (machines c) 0 w = Ret (machines c) w1"
    "synced Syncservice Publisher ''HELLO_LISTENER'' (length ds1 - requests ds1) (requests ds1) later1 w w1"
    using listeners.opens[OF ok listeners(1), of "machines c" 0] listeners(2) by auto
  obtain w2 where 2: "start_processes c w1 = Ret True w2" "api_ok w2" "inbox w2 = inbox w1"
    "sent Publisher (trace w2) = sent Publisher (trace w1) @ multipart (start_processes_request c)"
    using broadcast_ok(1)[of w1 c] 1(2) by (auto simp: synced_def)
  have in2: "inbox w2 Instance_syncservice = ds2 @ later2" "inbox w2 Receiver = concat (map frames ms)"
    using 1(2) 2(3) workers(1) results(1) by (simp_all add: synced_def)
  obtain w3 where 3: "sync_processes (machines c * processes c) 0 w2 = Ret (machines c * processes c) w3"
    "synced Instance_syncservice Publisher ''HELLO_SOCKET'' (length ds2 - requests ds2) (requests ds2) later2 w2 w3"
    using workers.opens[OF 2(2) in2(1), of "machines c * processes c" 0] workers(2) by auto
  obtain w4 where 4: "start_websockets c w3 = Ret True w4" "inbox w4 = inbox w3"
    "sent Publisher (trace w4) = sent Publisher (trace w3) @ multipart (start_websockets_request c)"
    using broadcast_ok(2)[of w3 c] 3(2) by (auto simp: synced_def)
  have "inbox w4 Receiver = [] @ concat (map frames ms)" using 3(2) 4(2) in2(2) by (simp add: synced_def)
  from collect_tally_spec[OF this, of F c "machines c * processes c" empty_tally] results(2)
  obtain w5 where 5: "collect F c (machines c * processes c) empty_tally w4 = Ret t w5"
    by (auto simp: forget_Ret)
  have "sent Publisher (trace w5) = sent Publisher (trace w4)"
    using collect_publishes_nothing[of F c "machines c * processes c" empty_tally w4] 5 by simp
  then have "sent Publisher (trace w5) = sent Publisher (trace w) @ concat (map multipart
        (replicate (length ds1 - requests ds1) [''HELLO_LISTENER''] @ [start_processes_request c]
         @ replicate (length ds2 - requests ds2) [''HELLO_SOCKET''] @ [start_websockets_request c]))"
    using 1(2) 2(4) 3(2) 4(3) by (simp add: synced_def concat_replicate_singleton)
  moreover have "run_iteration F A c w = Ret (make_report F A t) w5"
    by (simp add: run_iteration_def bindM_def 1(1) 2(1) 3(1) 4(1) 5 mul_int_ok range returnM_def)
  ultimately show ?thesis by blast
qed

text \<open>
  C2: an iteration runs to its report. When the library serves the calls, enough listeners and
  processes ask to synchronise, and the results that arrive account for every process, the
  iteration returns, its report is the one of the tally of those results, and what it has
  published is a hello per timeout, the request to start processes, a hello per timeout, and
  the request to start connections, each a complete message.
\<close>

theorem run_iteration_completes:
  assumes ok: "api_ok w"
    and listeners: "inbox w Syncservice = ds1 @ later1" "opens_with (machines c) ds1"
    and workers: "inbox w Instance_syncservice = ds2 @ later2" "opens_with (machines c * processes c) ds2"
    and results: "inbox w Receiver = concat (map frames ms)"
      "tally_spec F c (machines c * processes c) ms empty_tally = Ret t ()"
    and range: "int_range (machines c * processes c)" "int_range (machines c * processes c * instances c)"
  shows "\<exists>w'. run_iteration F A c w = Ret (make_report F A t) w'
    \<and> sent Publisher (trace w') = sent Publisher (trace w) @ concat (map multipart
        (replicate (length ds1 - requests ds1) [''HELLO_LISTENER''] @ [start_processes_request c]
         @ replicate (length ds2 - requests ds2) [''HELLO_SOCKET''] @ [start_websockets_request c]))"
  using assms by (rule run_iteration_run)

section \<open>A run\<close>

text \<open>
  One machine, one process, one connection and one message: a timeout and a request at each
  barrier, then what arrives at the sink.
\<close>

definition small_config :: config where
  "small_config = default_config\<lparr>machines := 1, processes := 1, instances := 1, messages := 1\<rparr>"

definition small_world :: "sink_msg list \<Rightarrow> ctl" where
  "small_world ms = \<lparr>inbox = (\<lambda>n. case n of
       Publisher \<Rightarrow> []
     | Syncservice \<Rightarrow> [Refused EAGAIN, Delivered [] False]
     | Instance_syncservice \<Rightarrow> [Refused EAGAIN, Delivered ''Client1-0'' False]
     | Receiver \<Rightarrow> concat (map frames ms)),
     api = serving_api, live = (\<lambda>n. False), trace = []\<rparr>"

lemma small_config_simps [simp]:
  "machines small_config = 1" "processes small_config = 1" "instances small_config = 1"
  "messages small_config = 1" "interval small_config = 60" "message_length small_config = 240"
  "send_messages small_config" "randomized_interval small_config"
  by (simp_all add: small_config_def default_config_def)

lemma small_world_simps [simp]:
  "inbox (small_world ms) Syncservice = [Refused EAGAIN, Delivered [] False]"
  "inbox (small_world ms) Instance_syncservice = [Refused EAGAIN, Delivered ''Client1-0'' False]"
  "inbox (small_world ms) Receiver = concat (map frames ms)"
  "api_ok (small_world ms)" "trace (small_world ms) = []"
  by (simp_all add: small_world_def api_ok_serving)

text \<open>What the run that receives no result has done when it waits for the first one.\<close>

definition small_trace :: "ctl_sock event list" where
  "small_trace = trace (final_world (run_iteration exact_fp exact_acc small_config (small_world [])))"

lemma small_texts [simp]:
  "to_string 1 = ''1''" "to_string 60 = ''60''" "to_string 240 = ''240''" "to_string_bool True = ''1''"
  by code_simp+

lemmas run_simps = bindM_def returnM_def Let_def exec_simps listeners.step_exec listeners.reached
  workers.step_exec workers.reached mul_int_def int_range_def int_min_def int_max_def
  run_iteration_def start_processes_def start_websockets_def collect_steps(1) empty_tally_def

lemma small_run:
  "small_trace =
     [Nothing_received Syncservice EAGAIN,
      Called Publisher (Zmq_msg_send ''HELLO_LISTENER'' False) 0,
      Received Syncservice [] False, Called Syncservice (Zmq_msg_send [] False) 0,
      Called Publisher (Zmq_msg_send ''StartProcesses'' True) 0,
      Called Publisher (Zmq_msg_send ''1'' True) 0, Called Publisher (Zmq_msg_send [] False) 0,
      Nothing_received Instance_syncservice EAGAIN,
      Called Publisher (Zmq_msg_send ''HELLO_SOCKET'' False) 0,
      Received Instance_syncservice ''Client1-0'' False,
      Called Instance_syncservice (Zmq_msg_send [] False) 0,
      Called Publisher (Zmq_msg_send ''StartWebsockets'' True) 0]
     @ map (\<lambda>p. Called Publisher (Zmq_msg_send p True) 0)
         [server_uri, ''1'', ''1'', ''1'', ''60'', ''1'', ''240'']
     @ [Called Publisher (Zmq_msg_send [] False) 0]"
  by (simp add: small_trace_def run_simps) (simp add: did_def took_def small_world_def serving_api_def)

theorem start_processes_after_listeners_witness:
  "trace (final_world (run_iteration exact_fp exact_acc small_config (small_world [])))
     = trace (small_world []) @ take 4 small_trace
       @ Called Publisher (Zmq_msg_send ''StartProcesses'' True) 0 # drop 5 small_trace
   \<and> machines small_config \<le> int (length (received Syncservice (take 4 small_trace)))"
proof -
  have run: "trace (final_world (run_iteration exact_fp exact_acc small_config (small_world [])))
     = trace (small_world []) @ take 4 small_trace
       @ Called Publisher (Zmq_msg_send ''StartProcesses'' True) 0 # drop 5 small_trace"
    unfolding small_trace_def[symmetric] by (simp add: small_run)
  with start_processes_after_listeners[OF run] show ?thesis by simp
qed

theorem start_websockets_after_processes_witness:
  "\<exists>before rc after. take 11 small_trace = before @ Called Publisher (Zmq_msg_send ''StartProcesses'' True) rc # after
     \<and> machines small_config \<le> int (length (received Syncservice before))
     \<and> machines small_config * processes small_config \<le> int (length (received Instance_syncservice after))"
proof -
  have run: "trace (final_world (run_iteration exact_fp exact_acc small_config (small_world [])))
     = trace (small_world []) @ take 11 small_trace
       @ Called Publisher (Zmq_msg_send ''StartWebsockets'' True) 0 # drop 12 small_trace"
    unfolding small_trace_def[symmetric] by (simp add: small_run)
  show ?thesis by (rule start_websockets_after_processes[OF run]) simp_all
qed


text \<open>One connection that echoed its message in 2 ms, and its process.\<close>

definition small_results :: "sink_msg list" where
  "small_results = [Result_msg ''success 1 2 2 2 0 3'', Finished_msg ''0'']"

definition small_tally :: tally where
  "small_tally = \<lparr>clientsFinished = 1, clientsDied = 0, resultsReceived = 1, connectionsDied = 0,
     connectionsSucceeded = 1, meansum = Fin 2, variancesum = Fin 0, totalcount = 1, samples = 1,
     setup_stats = [Fin 3]\<rparr>"

lemma small_tally_spec: "tally_spec exact_fp small_config 1 small_results empty_tally = Ret small_tally ()"
  by code_simp

theorem collect_refines_tally_spec_witness:
  "forget (collect exact_fp small_config 1 empty_tally (small_world small_results)) = Ret small_tally ()"
  using collect_refines_tally_spec[of "small_world small_results" small_results exact_fp small_config 1 empty_tally]
  by (simp add: small_tally_spec)

theorem run_iteration_completes_witness:
  "\<exists>w'. run_iteration exact_fp exact_acc small_config (small_world small_results)
       = Ret (make_report exact_fp exact_acc small_tally) w'
     \<and> messages_of (sent Publisher (trace w')) = [[''HELLO_LISTENER''], [''StartProcesses'', ''1'', []],
         [''HELLO_SOCKET''], [''StartWebsockets'', server_uri, ''1'', ''1'', ''1'', ''60'', ''1'', ''240'', []]]"
proof -
  obtain w' where "run_iteration exact_fp exact_acc small_config (small_world small_results)
       = Ret (make_report exact_fp exact_acc small_tally) w'"
    "sent Publisher (trace w') = concat (map multipart ([[''HELLO_LISTENER''],
       start_processes_request small_config, [''HELLO_SOCKET''], start_websockets_request small_config]))"
    using run_iteration_completes[of "small_world small_results" "[Refused EAGAIN, Delivered [] False]" "[]"
        small_config "[Refused EAGAIN, Delivered ''Client1-0'' False]" "[]" small_results exact_fp small_tally exact_acc]
    by (auto simp: small_tally_spec opens_with_def int_range_def int_min_def int_max_def)
  then show ?thesis
    by (simp add: messages_of_concat_multipart start_processes_request_def start_websockets_request_def
        del: concat.simps list.map)
qed

end
