(* ===== verification/Listener.thy ===== *)
theory Listener
  imports Zhelpers
begin

text \<open>
  The listener (listener.cpp): one runs on each machine. It answers the controller's hello, starts
  the requested number of client processes, waits for each to end and reports its status.

  Its world extends the sockets with what the operating system answers: the results of
  \<open>waitpid\<close>, in order, and whether a launch succeeds; and with the log of the children started.
\<close>

datatype lst_sock = Subscriber | Syncclient | Sink

text \<open>\<open>waitpid(0, &status, WNOHANG)\<close>: 0, -1, or the child that ended and its status word.\<close>

datatype wait_answer = Still_running | Wait_error | Exited int int

record child =
  child_exec :: string
  child_args :: "string list"

record lst = "lst_sock net" +
  waits :: "wait_answer list"
  launches :: "child \<Rightarrow> bool"
  children :: "child list"

section \<open>Children\<close>

definition start_child :: "string \<Rightarrow> string \<Rightarrow> (lst, unit) prog" where
  "start_child procName coordinator w =
     (let ch = \<lparr>child_exec = ''./listener-websocket'',
                child_args = [''listener-websocket'', procName, coordinator]\<rparr>
      in if launches w ch then Ret () (w\<lparr>children := children w @ [ch]\<rparr>)
         else Throw Launch_failed w)"

function launch_all :: "string \<Rightarrow> string \<Rightarrow> int \<Rightarrow> int \<Rightarrow> (lst, unit) prog" where
  "launch_all listenerName address i processes w =
     (if i < processes
      then bindM (start_child (listenerName @ ''-'' @ to_string i) address) (\<lambda>_ w1.
             launch_all listenerName address (i + 1) processes w1) w
      else Ret () w)"
  by pat_completeness auto
termination
  by (relation "measure (\<lambda>(name, address, i, n, w). nat (n - i))") auto

declare launch_all.simps [simp del]

definition report_finished :: "int \<Rightarrow> (lst, bool) prog" where
  "report_finished status =
     bindM (s_sendmore Sink ''Finished'') (\<lambda>_.
     bindM (s_sendmore Sink []) (\<lambda>_.
     bindM (s_sendmore Sink (to_string status)) (\<lambda>_.
     s_send Sink [])))"

text \<open>
  The wait loop. The status word is a local variable that \<open>waitpid\<close> assigns only when a child
  has ended; reporting it after an error reads an indeterminate value.
\<close>

definition wait_child :: "(lst, wait_answer) prog" where
  "wait_child w = (case waits w of [] \<Rightarrow> Stuck w | a # as \<Rightarrow> Ret a (w\<lparr>waits := as\<rparr>))"

definition wait_status :: "wait_answer \<Rightarrow> int option" where
  "wait_status a = (case a of Exited pid status \<Rightarrow> Some status | _ \<Rightarrow> None)"

lemma report_finished_frame: "report_finished st w = Ret b w' \<Longrightarrow> \<exists>t. w' = w\<lparr>trace := t\<rparr>"
  by (auto simp: report_finished_def bindM_Ret_iff dest!: s_send_frame)

lemma report_finished_waits: "report_finished st w = Ret b w' \<Longrightarrow> waits w' = waits w"
  by (drule report_finished_frame) auto

lemma wait_child_waits: "wait_child w = Ret a w' \<Longrightarrow> waits w = a # waits w'"
  by (auto simp: wait_child_def split: list.splits)

lemma readM_world: "readM x w = Ret a w' \<Longrightarrow> x = Some a \<and> w' = w"
  by (cases x) (auto simp: prog_simps)

function reap :: "int \<Rightarrow> (lst, unit) prog" where
  "reap unfinished w =
     (if unfinished > 0
      then bindM wait_child (\<lambda>result w1.
             if result = Still_running then reap unfinished w1
             else bindM (readM (wait_status result)) (\<lambda>status.
                  bindM (report_finished status) (\<lambda>_ w2. reap (unfinished - 1) w2)) w1) w
      else Ret () w)"
  by pat_completeness auto
termination
  by (relation "measure (\<lambda>(n, w). length (waits w))")
    (auto dest!: wait_child_waits report_finished_waits readM_world)

declare reap.simps [simp del]

section \<open>Requests\<close>

text \<open>The body of the \<open>StartProcesses\<close> branch, after its two further parts.\<close>

definition run_processes :: "string \<Rightarrow> string \<Rightarrow> bytes \<Rightarrow> (lst, unit) prog" where
  "run_processes listenerName address req =
     bindM (readM (fst (extract_int (istringstream req) None))) (\<lambda>processes.
     bindM (launch_all listenerName address 0 processes) (\<lambda>_.
     reap processes))"

lemma start_child_inbox: "start_child n a w = Ret u w' \<Longrightarrow> inbox w' = inbox w"
  by (auto simp: start_child_def Let_def split: if_splits)

lemma launch_all_inbox: "launch_all n a i k w = Ret u w' \<Longrightarrow> inbox w' = inbox w"
proof (induction n a i k w rule: launch_all.induct)
  case (1 n a i k w)
  then show ?case
    by (subst (asm) (2) launch_all.simps)
      (fastforce simp: bindM_Ret_iff split: if_splits dest: start_child_inbox)
qed

lemma report_finished_inbox: "report_finished st w = Ret b w' \<Longrightarrow> inbox w' = inbox w"
  by (drule report_finished_frame) auto

lemma reap_inbox: "reap k w = Ret u w' \<Longrightarrow> inbox w' = inbox w"
proof (induction k w rule: reap.induct)
  case (1 k w)
  show ?case
  proof (cases "k > 0")
    case False
    with "1.prems" show ?thesis by (simp add: reap.simps)
  next
    case True
    with "1.prems" obtain a w1 where a: "wait_child w = Ret a w1" and
      k: "(if a = Still_running then reap k w1
           else bindM (readM (wait_status a)) (\<lambda>status. bindM (report_finished status) (\<lambda>_. reap (k - 1))) w1) = Ret u w'"
      by (subst (asm) reap.simps) (auto simp: bindM_Ret_iff)
    from a have i: "inbox w1 = inbox w" by (auto simp: wait_child_def split: list.splits)
    show ?thesis
    proof (cases "a = Still_running")
      case True
      with "1.IH"(1)[OF \<open>k > 0\<close> a True] k i show ?thesis by simp
    next
      case False
      with k obtain st b w2 where s: "readM (wait_status a) w1 = Ret st w1" "report_finished st w1 = Ret b w2"
        and r: "reap (k - 1) w2 = Ret u w'"
        by (auto simp: bindM_Ret_iff dest: readM_world)
      from "1.IH"(2)[OF True a False s r] report_finished_inbox[OF s(2)] i show ?thesis by simp
    qed
  qed
qed

lemma run_processes_inbox: "run_processes name addr req w = Ret u w' \<Longrightarrow> inbox w' = inbox w"
  by (auto simp: run_processes_def bindM_Ret_iff dest!: readM_world launch_all_inbox reap_inbox)

text \<open>The inner loop: requests until \<open>END\<close>.\<close>

function serve :: "string \<Rightarrow> string \<Rightarrow> (lst, unit) prog" where
  "serve listenerName address w =
     bindM (s_recv Subscriber) (\<lambda>processingRequest w1.
       if processingRequest = ''END'' then Ret () w1
       else if processingRequest = ''StartProcesses''
       then bindM (s_recv Subscriber) (\<lambda>req.
            bindM (s_recv Subscriber) (\<lambda>delimiter.
            bindM (run_processes listenerName address req) (\<lambda>_ w2. serve listenerName address w2))) w1
       else serve listenerName address w1) w"
  by pat_completeness auto
termination
  by (relation "measure (\<lambda>(name, address, w). length (inbox w Subscriber))")
    (auto dest!: s_recv_shrinks run_processes_inbox)

text \<open>The outer loop: wait for the controller's hello, synchronise, then serve.\<close>

function await_hello :: "string \<Rightarrow> string \<Rightarrow> (lst, unit) prog" where
  "await_hello listenerName address w =
     bindM (s_recv Subscriber) (\<lambda>msg w1.
       if msg = ''HELLO_LISTENER''
       then bindM (s_send Syncclient []) (\<lambda>_.
            bindM (s_recv Syncclient) (\<lambda>_. serve listenerName address)) w1
       else await_hello listenerName address w1) w"
  by pat_completeness auto
termination
  by (relation "measure (\<lambda>(name, address, w). length (inbox w Subscriber))")
    (auto dest!: s_recv_shrinks)

declare serve.simps [simp del] await_hello.simps [simp del]

section \<open>The program\<close>

definition listener_address :: "string list \<Rightarrow> string" where
  "listener_address argv = (if length argv \<ge> 2 then argv ! 1 else ''localhost'')"

text \<open>The name is drawn with \<open>rand()\<close>, whose value is a parameter.\<close>

definition listener_name :: "int \<Rightarrow> string" where
  "listener_name r = ''Client'' @ to_string (r mod 10000 + 1)"

definition connect_listener :: "string \<Rightarrow> (lst, unit) prog" where
  "connect_listener address =
     thenM (socket_open Subscriber ZMQ_SUB)
    (thenM (socket_connect Subscriber (''tcp://'' @ address @ '':5561''))
    (thenM (socket_setsockopt Subscriber ZMQ_SUBSCRIBE ''StartProcesses'')
    (thenM (socket_setsockopt Subscriber ZMQ_SUBSCRIBE ''END'')
    (thenM (socket_setsockopt Subscriber ZMQ_SUBSCRIBE ''HELLO_LISTENER'')
    (thenM (socket_open Syncclient ZMQ_REQ)
    (thenM (socket_connect Syncclient (''tcp://'' @ address @ '':5562''))
    (thenM (socket_open Sink ZMQ_PUSH)
    (socket_connect Sink (''tcp://'' @ address @ '':5564'')))))))))"

definition listener_main :: "string list \<Rightarrow> int \<Rightarrow> (lst, int) prog" where
  "listener_main argv r =
     thenM (connect_listener (listener_address argv))
    (bindM (await_hello (listener_name r) (listener_address argv)) (\<lambda>_.
     thenM (socket_close Sink)
    (thenM (socket_close Syncclient)
    (thenM (socket_close Subscriber)
    (returnM 0)))))"

end
