(* ===== verification/Listener_Props.thy ===== *)
theory Listener_Props
  imports Listener
begin

text \<open>
  What the listener guarantees: it starts exactly the processes it was asked for, under distinct
  names, and reports the end of each exactly once, request after request until \<open>END\<close>.
\<close>

section \<open>Starting the children\<close>

definition child_for :: "string \<Rightarrow> string \<Rightarrow> int \<Rightarrow> child" where
  "child_for listenerName address i = \<lparr>child_exec = ''./listener-websocket'',
     child_args = [''listener-websocket'', listenerName @ ''-'' @ to_string i, address]\<rparr>"

definition started :: "child list \<Rightarrow> lst \<Rightarrow> lst" where
  "started cs w = w\<lparr>children := children w @ cs\<rparr>"

lemma started_simps [simp]:
  "inbox (started cs w) = inbox w" "api (started cs w) = api w" "live (started cs w) = live w"
  "trace (started cs w) = trace w" "waits (started cs w) = waits w" "launches (started cs w) = launches w"
  "children (started cs w) = children w @ cs" "started ds (started cs w) = started (cs @ ds) w"
  "started [] w = w" "api_ok (started cs w) = api_ok w"
  by (simp_all add: started_def api_ok_def)

lemma start_child_started:
  "start_child (name @ CHR ''-'' # to_string i) addr w =
     (if launches w (child_for name addr i) then Ret () (started [child_for name addr i] w)
      else Throw Launch_failed w)"
  by (simp add: start_child_def child_for_def started_def Let_def)

lemma launch_all_ok:
  assumes "\<And>j. i \<le> j \<Longrightarrow> j < n \<Longrightarrow> launches w (child_for name addr j)"
  shows "launch_all name addr i n w = Ret () (started (map (child_for name addr) [i..n - 1]) w)"
  using assms
proof (induction name addr i n w rule: launch_all.induct)
  case (1 name addr i n w)
  show ?case
  proof (cases "i < n")
    case False
    then show ?thesis by (simp add: launch_all.simps)
  next
    case True
    then have "launch_all name addr i n w = launch_all name addr (i + 1) n (started [child_for name addr i] w)"
      using "1.prems" by (subst launch_all.simps) (simp add: bindM_def start_child_started)
    also have "\<dots> = Ret () (started (map (child_for name addr) [i + 1..n - 1]) (started [child_for name addr i] w))"
      using "1.prems" True
      by (intro "1.IH") (simp_all add: start_child_started)
    finally show ?thesis using True by (simp add: upto_rec1)
  qed
qed

lemma launch_all_fails:
  assumes "i \<le> k" "k < n" "\<not> launches w (child_for name addr k)"
    and "\<And>j. i \<le> j \<Longrightarrow> j < k \<Longrightarrow> launches w (child_for name addr j)"
  shows "launch_all name addr i n w = Throw Launch_failed (started (map (child_for name addr) [i..k - 1]) w)"
  using assms
proof (induction name addr i n w rule: launch_all.induct)
  case (1 name addr i n w)
  from "1.prems" have lt: "i < n" by simp
  show ?case
  proof (cases "i = k")
    case True
    with "1.prems" lt show ?thesis by (subst launch_all.simps) (simp add: bindM_def start_child_started)
  next
    case False
    with "1.prems" have "i < k" by simp
    with "1.prems" lt have "launch_all name addr i n w = launch_all name addr (i + 1) n (started [child_for name addr i] w)"
      by (subst launch_all.simps) (simp add: bindM_def start_child_started)
    also have "\<dots> = Throw Launch_failed (started (map (child_for name addr) [i + 1..k - 1]) (started [child_for name addr i] w))"
      using "1.prems" \<open>i < k\<close> lt by (intro "1.IH") (simp_all add: start_child_started)
    finally show ?thesis using \<open>i < k\<close> by (simp add: upto_rec1)
  qed
qed

lemma to_string_inj:
  assumes "int_range i" "int_range j" "to_string i = to_string j" shows "i = j"
  using extract_int_istringstream[OF assms(1), of None, unfolded assms(3)]
    extract_int_istringstream[OF assms(2), of None] by simp

lemma children_distinct:
  assumes "int_range n" shows "distinct (map (child_for name addr) [0..n - 1])"
proof -
  have "inj_on (child_for name addr) (set [0..n - 1])"
    using assms by (auto intro!: inj_onI to_string_inj simp: child_for_def int_range_def int_min_def)
  then show ?thesis by (simp add: distinct_map)
qed

section \<open>Reporting their ends\<close>

definition finished_message :: "int \<Rightarrow> bytes list" where
  "finished_message status = [''Finished'', [], to_string status, []]"

definition pushed :: "int \<Rightarrow> lst \<Rightarrow> lst" where
  "pushed status w = did Sink (Zmq_msg_send [] False) (did Sink (Zmq_msg_send (to_string status) True)
     (did Sink (Zmq_msg_send [] True) (did Sink (Zmq_msg_send ''Finished'' True) w)))"

lemma pushed_simps [simp]:
  "inbox (pushed s w) = inbox w" "api (pushed s w) = api w" "live (pushed s w) = live w"
  "waits (pushed s w) = waits w" "launches (pushed s w) = launches w" "children (pushed s w) = children w"
  "api_ok (pushed s w) = api_ok w"
  "api_ok w \<Longrightarrow> sent n (trace (pushed s w)) = sent n (trace w) @ (if n = Sink then multipart (finished_message s) else [])"
  by (simp_all add: pushed_def finished_message_def) (simp_all add: did_def)

lemma report_finished_ok: "api_ok w \<Longrightarrow> report_finished s w = Ret True (pushed s w)"
  by (simp add: report_finished_def pushed_def exec_simps)

text \<open>The statuses among the answers of \<open>waitpid\<close>, and answers that account for \<open>n\<close> children.\<close>

primrec exits :: "wait_answer list \<Rightarrow> int list" where
  "exits [] = []"
| "exits (a # as) = (case a of Exited pid status \<Rightarrow> status # exits as | _ \<Rightarrow> exits as)"

definition reaps :: "int \<Rightarrow> wait_answer list \<Rightarrow> bool" where
  "reaps n ws \<longleftrightarrow> Wait_error \<notin> set ws \<and> int (length (exits ws)) = n \<and> (ws = [] \<or> last ws \<noteq> Still_running)"

lemma exits_Nil_iff: "Wait_error \<notin> set ws \<Longrightarrow> exits ws = [] \<Longrightarrow> ws = [] \<or> last ws = Still_running"
  by (induction ws) (auto split: wait_answer.splits)

lemma exits_replicate [simp]: "exits (replicate k Still_running @ ws) = exits ws"
  by (induction k) auto

lemma wait_child_exec: "waits w = a # as \<Longrightarrow> wait_child w = Ret a (w\<lparr>waits := as\<rparr>)"
  by (simp add: wait_child_def)

lemma waits_update_api_ok [simp]: "api_ok (w\<lparr>waits := as\<rparr>) = api_ok (w :: lst)"
  by (simp add: api_ok_def)

lemma reap_steps:
  assumes "n > 0" "waits w = a # as"
  shows "a = Still_running \<Longrightarrow> reap n w = reap n (w\<lparr>waits := as\<rparr>)"
    and "a = Exited pid s \<Longrightarrow> api_ok w \<Longrightarrow> reap n w = reap (n - 1) (pushed s (w\<lparr>waits := as\<rparr>))"
    and "a = Wait_error \<Longrightarrow> reap n w = Throw Indeterminate_read (w\<lparr>waits := as\<rparr>)"
  using assms
  by (subst reap.simps; simp add: bindM_def wait_child_exec wait_status_def prog_simps report_finished_ok)+

definition reaped :: "wait_answer list \<Rightarrow> int list \<Rightarrow> lst \<Rightarrow> lst \<Rightarrow> bool" where
  "reaped later statuses w w' \<longleftrightarrow> api_ok w' \<and> inbox w' = inbox w \<and> live w' = live w \<and> children w' = children w
     \<and> launches w' = launches w \<and> waits w' = later
     \<and> sent Sink (trace w') = sent Sink (trace w) @ concat (map multipart (map finished_message statuses))
     \<and> sent Syncclient (trace w') = sent Syncclient (trace w)"

lemma reap_ok:
  assumes "api_ok w" "waits w = ws @ later" "reaps n ws"
  shows "\<exists>w'. reap n w = Ret () w' \<and> reaped later (exits ws) w w'"
  using assms
proof (induction ws arbitrary: n w)
  case Nil
  then show ?case by (auto simp: reaps_def reap.simps reaped_def)
next
  case (Cons a ws)
  have tl: "Wait_error \<notin> set ws" "a \<noteq> Wait_error" and w: "waits w = a # ws @ later"
    using Cons.prems by (auto simp: reaps_def)
  show ?case
  proof (cases a)
    case Still_running
    then have r: "reaps n ws" using Cons.prems by (auto simp: reaps_def split: if_splits)
    with tl Cons.prems Still_running exits_Nil_iff[of ws] have "n > 0" by (auto simp: reaps_def split: if_splits)
    with reap_steps(1)[OF _ w Still_running] Cons.IH[of "w\<lparr>waits := ws @ later\<rparr>" n] Cons.prems(1) r Still_running
    show ?thesis by (auto simp: reaped_def)
  next
    case (Exited pid s)
    then have r: "reaps (n - 1) ws" "n > 0" using Cons.prems by (auto simp: reaps_def split: if_splits)
    let ?w = "pushed s (w\<lparr>waits := ws @ later\<rparr>)"
    obtain w' where "reap (n - 1) ?w = Ret () w'" "reaped later (exits ws) ?w w'"
      using Cons.IH[of ?w "n - 1"] Cons.prems(1) r by auto
    with reap_steps(2)[OF r(2) w Exited Cons.prems(1)] Exited Cons.prems(1) show ?thesis
      by (auto simp: reaped_def)
  qed (use tl in simp)
qed

text \<open>The answers before the first error.\<close>

definition before_error :: "wait_answer list \<Rightarrow> wait_answer list" where
  "before_error ws = takeWhile (\<lambda>a. a \<noteq> Wait_error) ws"

lemma before_error_simps [simp]:
  "before_error [] = []" "before_error (Wait_error # ws) = []"
  "before_error (Still_running # ws) = Still_running # before_error ws"
  "before_error (Exited pid s # ws) = Exited pid s # before_error ws"
  by (simp_all add: before_error_def)

lemma reap_short:
  assumes "api_ok w" "int (length (exits (before_error (waits w)))) < n"
  shows "\<exists>w'. reap n w = (if Wait_error \<in> set (waits w) then Throw Indeterminate_read w' else Stuck w')
    \<and> sent Sink (trace w') = sent Sink (trace w)
        @ concat (map multipart (map finished_message (exits (before_error (waits w)))))"
  using assms
proof (induction "waits w" arbitrary: n w)
  case Nil
  then have "reap n w = Stuck w" by (subst reap.simps) (simp add: bindM_def wait_child_def)
  with Nil show ?case by simp
next
  case (Cons a ws)
  then have pos: "n > 0" and w: "waits w = a # ws" by auto
  show ?case
  proof (cases a)
    case Still_running
    with Cons.hyps(1)[of "w\<lparr>waits := ws\<rparr>" n] Cons.prems w reap_steps(1)[OF pos w] show ?thesis by simp
  next
    case (Exited pid s)
    with Cons.hyps(1)[of "pushed s (w\<lparr>waits := ws\<rparr>)" "n - 1"] Cons.prems w reap_steps(2)[OF pos w Exited Cons.prems(1)]
    show ?thesis by auto
  next
    case Wait_error
    with reap_steps(3)[OF pos w] w show ?thesis by simp
  qed
qed

section \<open>Serving requests\<close>

text \<open>
  A plan: for each request of the controller, the hellos (meant for other listeners) that come
  before it, the number of processes, and the answers of \<open>waitpid\<close> while the listener waits for
  them. Its parts on the wire, the children it starts and the messages it pushes.
\<close>

type_synonym plan = "(nat \<times> int \<times> wait_answer list) list"

definition deliver :: "bytes list \<Rightarrow> delivery list" where
  "deliver ps = map (\<lambda>(b, m). Delivered b m) (multipart ps)"

definition plan_requests :: "plan \<Rightarrow> delivery list" where
  "plan_requests p = concat (map (\<lambda>(k, n, ws). replicate k (Delivered ''HELLO_LISTENER'' False)
     @ deliver [''StartProcesses'', to_string n, []]) p)"

definition plan_waits :: "plan \<Rightarrow> wait_answer list" where
  "plan_waits p = concat (map (\<lambda>(k, n, ws). ws) p)"

definition plan_ok :: "plan \<Rightarrow> bool" where
  "plan_ok p \<longleftrightarrow> list_all (\<lambda>(k, n, ws). int_range n \<and> reaps n ws) p"

definition plan_children :: "string \<Rightarrow> string \<Rightarrow> plan \<Rightarrow> child list" where
  "plan_children name addr p = concat (map (\<lambda>(k, n, ws). map (child_for name addr) [0..n - 1]) p)"

definition plan_reports :: "plan \<Rightarrow> bytes list list" where
  "plan_reports p = map finished_message (concat (map (\<lambda>(k, n, ws). exits ws) p))"

definition served_plan :: "string \<Rightarrow> string \<Rightarrow> plan \<Rightarrow> lst \<Rightarrow> lst \<Rightarrow> bool" where
  "served_plan name addr p w w' \<longleftrightarrow> children w' = children w @ plan_children name addr p
     \<and> sent Sink (trace w') = sent Sink (trace w) @ concat (map multipart (plan_reports p))
     \<and> sent Syncclient (trace w') = sent Syncclient (trace w)
     \<and> inbox w' = (inbox w)(Subscriber := inbox w' Subscriber) \<and> api_ok w'"

lemma run_processes_ok:
  assumes "api_ok w" "waits w = ws @ later" "int_range n" "reaps n ws" "\<And>c. launches w c"
  shows "\<exists>w'. run_processes name addr (to_string n) w = Ret () w'
    \<and> reaped later (exits ws) (started (map (child_for name addr) [0..n - 1]) w) w'"
proof -
  have "launch_all name addr 0 n w = Ret () (started (map (child_for name addr) [0..n - 1]) w)"
    by (rule launch_all_ok) (rule assms(5))
  moreover obtain w' where "reap n (started (map (child_for name addr) [0..n - 1]) w) = Ret () w'"
    "reaped later (exits ws) (started (map (child_for name addr) [0..n - 1]) w) w'"
    using reap_ok[of "started (map (child_for name addr) [0..n - 1]) w" ws later n] assms by auto
  ultimately show ?thesis
    using assms(3) by (simp add: run_processes_def extract_int_istringstream bindM_def prog_simps)
qed

lemma serve_end:
  "inbox w Subscriber = Delivered ''END'' f # ds \<Longrightarrow>
     serve name addr w = Ret () (took Subscriber (Delivered ''END'' f) ds w)"
  by (subst serve.simps) (simp add: exec_simps)

definition request_taken :: "bytes \<Rightarrow> delivery list \<Rightarrow> lst \<Rightarrow> lst" where
  "request_taken req ds w = took Subscriber (Delivered [] False) ds
     (took Subscriber (Delivered req True) (Delivered [] False # ds)
       (took Subscriber (Delivered ''StartProcesses'' True) (Delivered req True # Delivered [] False # ds) w))"

lemma took_lst [simp]:
  "waits (took n d ds w) = waits w" "launches (took n d ds w) = launches w" "children (took n d ds w) = children w"
  by (simp_all add: took_def)

lemma request_taken_simps [simp]:
  "waits (request_taken req ds w) = waits w" "launches (request_taken req ds w) = launches w"
  "children (request_taken req ds w) = children w" "api_ok (request_taken req ds w) = api_ok w"
  "sent n (trace (request_taken req ds w)) = sent n (trace w)"
  "inbox (request_taken req ds w) = (inbox w)(Subscriber := ds)"
  by (simp_all add: request_taken_def)

lemma serve_request:
  assumes "inbox w Subscriber = deliver [''StartProcesses'', req, []] @ ds"
  shows "serve name addr w = bindM (run_processes name addr req) (\<lambda>_. serve name addr) (request_taken req ds w)"
  using assms by (subst serve.simps) (simp add: exec_simps deliver_def request_taken_def)

lemma serve_other:
  assumes "inbox w Subscriber = Delivered b f # ds" "b \<noteq> ''END''" "b \<noteq> ''StartProcesses''"
  shows "serve name addr w = serve name addr (took Subscriber (Delivered b f) ds w)"
  using assms by (subst serve.simps) (simp add: exec_simps)

fun hellos_taken :: "nat \<Rightarrow> delivery list \<Rightarrow> lst \<Rightarrow> lst" where
  "hellos_taken 0 ds w = w"
| "hellos_taken (Suc k) ds w = hellos_taken k ds (took Subscriber (Delivered ''HELLO_LISTENER'' False)
     (replicate k (Delivered ''HELLO_LISTENER'' False) @ ds) w)"

lemma hellos_taken_simps [simp]:
  "waits (hellos_taken k ds w) = waits w" "launches (hellos_taken k ds w) = launches w"
  "children (hellos_taken k ds w) = children w" "api_ok (hellos_taken k ds w) = api_ok w"
  "sent n (trace (hellos_taken k ds w)) = sent n (trace w)"
  "(inbox (hellos_taken k ds w))(Subscriber := es) = (inbox w)(Subscriber := es)"
  by (induction k arbitrary: w) simp_all

lemma hellos_taken_inbox:
  "inbox w Subscriber = replicate k (Delivered ''HELLO_LISTENER'' False) @ ds \<Longrightarrow>
     inbox (hellos_taken k ds w) Subscriber = ds"
  by (induction k arbitrary: w) simp_all

lemma serve_hellos:
  "inbox w Subscriber = replicate k (Delivered ''HELLO_LISTENER'' False) @ ds \<Longrightarrow>
     serve name addr w = serve name addr (hellos_taken k ds w)"
proof (induction k arbitrary: w)
  case (Suc k)
  then have "serve name addr w = serve name addr (took Subscriber (Delivered ''HELLO_LISTENER'' False)
      (replicate k (Delivered ''HELLO_LISTENER'' False) @ ds) w)"
    by (intro serve_other) simp_all
  with Suc show ?case by simp
qed simp

lemma serve_plan:
  assumes "api_ok w" "inbox w Subscriber = plan_requests p @ Delivered ''END'' False # ds"
    "waits w = plan_waits p @ later" "plan_ok p" "\<And>c. launches w c"
  shows "\<exists>w'. serve name addr w = Ret () w' \<and> served_plan name addr p w w'
           \<and> waits w' = later \<and> inbox w' Subscriber = ds"
  using assms
proof (induction p arbitrary: w)
  case Nil
  then show ?case
    using serve_end[of w False ds name addr]
    by (auto simp: plan_requests_def plan_waits_def served_plan_def plan_children_def plan_reports_def)
next
  case (Cons q p)
  obtain k n ws where q: "q = (k, n, ws)" by (cases q)
  let ?ds = "plan_requests p @ Delivered ''END'' False # ds"
  let ?w0 = "hellos_taken k (deliver [''StartProcesses'', to_string n, []] @ ?ds) w"
  let ?w1 = "request_taken (to_string n) ?ds ?w0"
  let ?w2 = "started (map (child_for name addr) [0..n - 1]) ?w1"
  obtain w3 where r: "run_processes name addr (to_string n) ?w1 = Ret () w3"
    "reaped (plan_waits p @ later) (exits ws) ?w2 w3"
    using run_processes_ok[of ?w1 ws "plan_waits p @ later" n name addr] Cons.prems
    by (auto simp: q plan_ok_def plan_waits_def)
  have "serve name addr w = serve name addr ?w0"
    using Cons.prems(2) by (intro serve_hellos) (simp add: plan_requests_def q)
  also have "\<dots> = bindM (run_processes name addr (to_string n)) (\<lambda>_. serve name addr) ?w1"
    by (rule serve_request) (simp add: hellos_taken_inbox[of w k] Cons.prems(2) plan_requests_def q)
  finally have "serve name addr w = serve name addr w3" by (simp add: bindM_def r(1))
  moreover obtain w' where "serve name addr w3 = Ret () w'" "served_plan name addr p w3 w'"
    "waits w' = later" "inbox w' Subscriber = ds"
    using Cons.IH[of w3] r(2) Cons.prems by (auto simp: q plan_ok_def reaped_def)
  ultimately show ?case
    using r(2) by (auto simp: served_plan_def reaped_def q plan_children_def plan_reports_def)
qed

section \<open>The program\<close>

text \<open>Two worlds that differ in what was received and in the sockets that are open.\<close>

definition heard :: "delivery list \<Rightarrow> lst \<Rightarrow> lst \<Rightarrow> bool" where
  "heard ds w w' \<longleftrightarrow> inbox w' = (inbox w)(Subscriber := ds) \<and> api_ok w' = api_ok w \<and> waits w' = waits w
     \<and> launches w' = launches w \<and> children w' = children w \<and> (\<forall>n. sent n (trace w') = sent n (trace w))"

lemma did_lst [simp]:
  "waits (did n c w) = waits w" "launches (did n c w) = launches w" "children (did n c w) = children w"
  by (simp_all add: did_def)

lemma await_hello_skips:
  assumes "list_all (says_not ''HELLO_LISTENER'') noise" "inbox w Subscriber = noise @ ds"
  shows "\<exists>w'. await_hello name addr w = await_hello name addr w' \<and> heard ds w w'"
  using assms
proof (induction noise arbitrary: w)
  case Nil
  then show ?case by (intro exI[of _ w]) (simp add: heard_def fun_upd_idem)
next
  case (Cons d noise)
  then obtain b f where d: "d = Delivered b f" "b \<noteq> ''HELLO_LISTENER''" by (cases d) auto
  let ?w = "took Subscriber d (noise @ ds) w"
  have "await_hello name addr w = await_hello name addr ?w"
    using Cons.prems d by (subst await_hello.simps) (simp add: exec_simps)
  moreover have "\<exists>w'. await_hello name addr ?w = await_hello name addr w' \<and> heard ds ?w w'"
    using Cons.prems by (intro Cons.IH) simp_all
  ultimately show ?case by (auto simp: heard_def)
qed

lemma await_hello_syncs:
  assumes "api_ok w" "inbox w Subscriber = Delivered ''HELLO_LISTENER'' f # ds"
    "inbox w Syncclient = Delivered r g # rs"
  shows "await_hello name addr w = serve name addr (took Syncclient (Delivered r g) rs
      (did Syncclient (Zmq_msg_send [] False) (took Subscriber (Delivered ''HELLO_LISTENER'' f) ds w)))"
  using assms by (subst await_hello.simps) (simp add: exec_simps)

lemma connect_listener_ok:
  assumes "api_ok w"
  shows "\<exists>w'. connect_listener addr w = Ret () w' \<and> heard (inbox w Subscriber) w w'"
  using assms by (simp add: connect_listener_def prog_simps heard_def)

lemma close_listener_ok:
  assumes "api_ok w"
  shows "\<exists>w'. thenM (socket_close Sink) (thenM (socket_close Syncclient) (thenM (socket_close Subscriber) (returnM r))) w
      = Ret r w' \<and> heard (inbox w Subscriber) w w'"
  using assms by (simp add: prog_simps heard_def)

lemma listener_main_run:
  assumes ok: "api_ok w" and can_launch: "\<And>c. launches w c"
    and noise: "list_all (says_not ''HELLO_LISTENER'') noise"
    and inbox: "inbox w Subscriber = noise @ Delivered ''HELLO_LISTENER'' False # plan_requests p
        @ Delivered ''END'' False # ds" "inbox w Syncclient = Delivered r g # rs"
    and plan: "plan_ok p" "waits w = plan_waits p @ later"
    and quiet: "sent Sink (trace w) = []" "sent Syncclient (trace w) = []"
  shows "\<exists>w'. listener_main argv rand w = Ret 0 w'
    \<and> children w' = children w @ plan_children (listener_name rand) (listener_address argv) p
    \<and> messages_of (sent Sink (trace w')) = plan_reports p
    \<and> sent Syncclient (trace w') = [([], False)] \<and> waits w' = later"
proof -
  let ?name = "listener_name rand" and ?addr = "listener_address argv"
  obtain w1 where 1: "connect_listener ?addr w = Ret () w1" "heard (inbox w Subscriber) w w1"
    using connect_listener_ok[OF ok] by blast
  have in1: "inbox w1 Subscriber = noise @ Delivered ''HELLO_LISTENER'' False # plan_requests p @ Delivered ''END'' False # ds"
    using 1(2) inbox(1) by (simp add: heard_def)
  obtain w2 where 2: "await_hello ?name ?addr w1 = await_hello ?name ?addr w2"
    "heard (Delivered ''HELLO_LISTENER'' False # plan_requests p @ Delivered ''END'' False # ds) w1 w2"
    using await_hello_skips[OF noise in1] by blast
  let ?w3 = "took Syncclient (Delivered r g) rs (did Syncclient (Zmq_msg_send [] False)
    (took Subscriber (Delivered ''HELLO_LISTENER'' False) (plan_requests p @ Delivered ''END'' False # ds) w2))"
  have 3: "await_hello ?name ?addr w2 = serve ?name ?addr ?w3"
    using ok 1(2) 2(2) inbox(2) by (intro await_hello_syncs) (auto simp: heard_def)
  obtain w4 where 4: "serve ?name ?addr ?w3 = Ret () w4" "served_plan ?name ?addr p ?w3 w4" "waits w4 = later"
    using serve_plan[of ?w3 p ds later ?name ?addr] ok 1(2) 2(2) plan can_launch by (auto simp: heard_def)
  obtain w5 where 5: "thenM (socket_close Sink) (thenM (socket_close Syncclient) (thenM (socket_close Subscriber) (returnM (0::int)))) w4
      = Ret 0 w5" "heard (inbox w4 Subscriber) w4 w5"
    using close_listener_ok[of w4 "0::int"] 4(2) unfolding served_plan_def by blast
  have "listener_main argv rand w = Ret 0 w5"
    using 1(1) 2(1) 3 4(1) 5(1) by (simp add: listener_main_def thenM_def bindM_def)
  moreover have "messages_of (concat (map multipart (plan_reports p))) = plan_reports p"
    by (rule messages_of_concat_multipart) (simp add: plan_reports_def finished_message_def list_all_iff)
  ultimately show ?thesis
    using ok quiet 1(2) 2(2) 4(2,3) 5(2) by (auto simp: heard_def served_plan_def)
qed

text \<open>
  C7: the whole program of a listener, for any number of requests: it ignores what comes before
  the controller's hello, sends one synchronisation request, starts for each request exactly as
  many children as it names, under the names 0, 1, and so on, pushes for each child that ends one
  message with its status, in the order in which they end, and returns 0 after \<open>END\<close>.
\<close>

theorem listener_main_serves:
  assumes ok: "api_ok w" and can_launch: "\<And>c. launches w c"
    and noise: "list_all (says_not ''HELLO_LISTENER'') noise"
    and inbox: "inbox w Subscriber = noise @ Delivered ''HELLO_LISTENER'' False # plan_requests p
        @ Delivered ''END'' False # ds" "inbox w Syncclient = Delivered r g # rs"
    and plan: "plan_ok p" "waits w = plan_waits p @ later"
    and quiet: "sent Sink (trace w) = []" "sent Syncclient (trace w) = []"
  shows "\<exists>w'. listener_main argv rand w = Ret 0 w'
    \<and> children w' = children w @ plan_children (listener_name rand) (listener_address argv) p
    \<and> messages_of (sent Sink (trace w')) = plan_reports p
    \<and> sent Syncclient (trace w') = [([], False)] \<and> waits w' = later"
  using assms by (rule listener_main_run)

text \<open>
  C14: the wait loop does not invent the end of a child. When the answers of \<open>waitpid\<close> account for
  fewer children than it waits for, it never returns: it pushes one message for each child that
  did end and then polls for ever, or, when \<open>waitpid\<close> fails, goes on to format a status variable
  that nothing has assigned.
\<close>

theorem reap_needs_every_child:
  assumes "api_ok w" "int (length (exits (before_error (waits w)))) < n"
  shows "\<exists>w'. reap n w = (if Wait_error \<in> set (waits w) then Throw Indeterminate_read w' else Stuck w')
    \<and> sent Sink (trace w') = sent Sink (trace w)
        @ concat (map multipart (map finished_message (exits (before_error (waits w)))))"
  using assms by (rule reap_short)

text \<open>
  C15: a launch that fails ends the listener at once with an uncaught exception: the children started
  before it keep running, no message reports them, and no later child is started.
\<close>

theorem failed_launch_ends_listener:
  assumes "int_range n" "0 \<le> k" "k < n" "\<not> launches w (child_for name addr k)"
    and "\<And>j. 0 \<le> j \<Longrightarrow> j < k \<Longrightarrow> launches w (child_for name addr j)"
  shows "\<exists>w'. run_processes name addr (to_string n) w = Throw Launch_failed w' \<and> trace w' = trace w
    \<and> children w' = children w @ map (child_for name addr) [0..k - 1]"
  using launch_all_fails[of 0 k n w name addr] assms
  by (simp add: run_processes_def extract_int_istringstream bindM_def prog_simps)

section \<open>A run\<close>

text \<open>
  Two requests: two processes, of which the second ends first and with an error, then none.
\<close>

definition lst_plan :: plan where
  "lst_plan = [(1, 2, [Still_running, Exited 12 256, Still_running, Exited 11 0]), (0, 0, [])]"

definition lst_world :: lst where
  "lst_world = \<lparr>inbox = (\<lambda>n. case n of
       Subscriber \<Rightarrow> Delivered ''END'' False # Delivered ''HELLO_LISTENER'' False # plan_requests lst_plan
         @ [Delivered ''END'' False]
     | Syncclient \<Rightarrow> [Delivered [] False]
     | Sink \<Rightarrow> []),
     api = serving_api, live = (\<lambda>n. False), trace = [], waits = plan_waits lst_plan,
     launches = (\<lambda>c. True), children = []\<rparr>"

theorem listener_main_serves_witness:
  "\<exists>w'. listener_main [''listener'', ''10.0.0.1''] 41 lst_world = Ret 0 w'
    \<and> map (\<lambda>c. child_args c) (children w') = [[''listener-websocket'', ''Client42-0'', ''10.0.0.1''],
         [''listener-websocket'', ''Client42-1'', ''10.0.0.1'']]
    \<and> messages_of (sent Sink (trace w')) = [[''Finished'', [], ''256'', []], [''Finished'', [], ''0'', []]]"
proof -
  have "plan_children (listener_name 41) (listener_address [''listener'', ''10.0.0.1'']) lst_plan
      = map (child_for ''Client42'' ''10.0.0.1'') [0, 1]"
    and "plan_reports lst_plan = [[''Finished'', [], ''256'', []], [''Finished'', [], ''0'', []]]"
    and "map (\<lambda>c. child_args c) (map (child_for ''Client42'' ''10.0.0.1'') [0, 1])
      = [[''listener-websocket'', ''Client42-0'', ''10.0.0.1''], [''listener-websocket'', ''Client42-1'', ''10.0.0.1'']]"
    and "plan_ok lst_plan"
    by code_simp+
  then show ?thesis
    using listener_main_serves[of lst_world "[Delivered ''END'' False]" lst_plan "[]" "[]" False "[]" "[]"
        "[''listener'', ''10.0.0.1'']" 41]
    by (auto simp: lst_world_def api_ok_serving)
qed

theorem reap_needs_every_child_witness:
  "(\<exists>w'. reap 3 lst_world = Stuck w' \<and> messages_of (sent Sink (trace w'))
       = [[''Finished'', [], ''256'', []], [''Finished'', [], ''0'', []]])
   \<and> (\<exists>w'. reap 1 (lst_world\<lparr>waits := [Wait_error]\<rparr>) = Throw Indeterminate_read w')"
proof -
  have "before_error (waits lst_world) = waits lst_world" "Wait_error \<notin> set (waits lst_world)"
    "exits (waits lst_world) = [256, 0]" "api_ok lst_world" "trace lst_world = []"
    by (simp_all add: lst_world_def plan_waits_def lst_plan_def api_ok_serving)
  moreover have "to_string 256 = ''256''" "to_string 0 = ''0''" by code_simp+
  ultimately show ?thesis
    using reap_needs_every_child[of lst_world 3] reap_needs_every_child[of "lst_world\<lparr>waits := [Wait_error]\<rparr>" 1]
    by (auto simp: finished_message_def)
qed

theorem failed_launch_ends_listener_witness:
  "\<exists>w'. run_processes ''Client42'' ''10.0.0.1'' (to_string 2)
       (lst_world\<lparr>launches := (\<lambda>c. c = child_for ''Client42'' ''10.0.0.1'' 0)\<rparr>) = Throw Launch_failed w'
     \<and> trace w' = trace lst_world \<and> children w' = [child_for ''Client42'' ''10.0.0.1'' 0]"
  (is "\<exists>w'. run_processes ?n ?a _ ?w = _ \<and> _ \<and> _")
proof -
  have "child_for ?n ?a 1 \<noteq> child_for ?n ?a 0" by code_simp
  then have refused: "\<not> launches ?w (child_for ?n ?a 1)" by simp
  have first: "launches ?w (child_for ?n ?a j)" if "0 \<le> j" "j < 1" for j
  proof -
    from that have "j = 0" by simp
    then show ?thesis by simp
  qed
  have range: "int_range 2" "0 \<le> (1::int)" "(1::int) < 2"
    by (simp_all add: int_range_def int_min_def int_max_def)
  from failed_launch_ends_listener[OF range refused first] show ?thesis
    by (simp add: lst_world_def)
qed

end
