(* ===== verification/Base_Client.thy ===== *)
theory Base_Client
  imports Doubles
begin

text \<open>
  A WebSocket client (clients/base-client.hpp): the class \<open>base_client\<close>.

  Two threads share a client: the endpoint's thread, which calls the handlers, and the
  telemetry thread, which sends messages. The handlers and the two locked regions of the
  telemetry loop exclude each other (\<open>m_lock\<close>), so a run is an interleaving of these regions.
  The telemetry thread has a program counter that names the region it enters next; what the
  endpoint, the clock and the random generators answer comes with each step.

  The field \<open>history\<close> records the events a client takes part in, in order; it is not part of the
  program and no operation reads it.
\<close>

section \<open>State\<close>

datatype region =
    Loop_head
  | Check
  | Build
  | Send string
  | After_send bool
  | Loop_end
  | Stopped
  | Aborted

datatype client_event =
    Opened
  | Closed_by_peer
  | Connection_failed
  | Echo
  | Sent string bool
  | Close_called string
  | Fail_called string

record client =
  log_file :: string
  m_open :: bool
  m_done :: bool
  m_finite_messages :: bool
  m_total_messages :: int
  m_count :: int
  m_random_interval :: bool
  m_interval :: int
  m_message_pending :: bool
  m_message_length :: int
  m_failed :: bool
  m_stats :: "double list"
  m_setupTime :: "double option"
  connected :: bool
  threads_started :: bool
  pc :: region
  history :: "client_event list"

text \<open>The constructor leaves \<open>m_setupTime\<close> indeterminate: only the open handler assigns it.\<close>

definition base_client :: "string \<Rightarrow> int \<Rightarrow> bool \<Rightarrow> int \<Rightarrow> int \<Rightarrow> client" where
  "base_client ident total_messages random_interval ival message_len =
     \<lparr>log_file = ''logs/'' @ ident @ ''.log'', m_open = False, m_done = False, m_finite_messages = True, m_total_messages = total_messages,
      m_count = 0, m_random_interval = random_interval, m_interval = ival,
      m_message_pending = False, m_message_length = message_len, m_failed = False,
      m_stats = [], m_setupTime = None, connected = False, threads_started = False,
      pc = Loop_head, history = []\<rparr>"

section \<open>Starting and joining\<close>

text \<open>
  \<open>run\<close>: when the endpoint refuses the URI it logs and returns, without starting the threads.
  \<open>wait\<close> joins them through pointers that only \<open>run\<close> assigns.
\<close>

definition client_run :: "bool \<Rightarrow> 'm client_scheme \<Rightarrow> 'm client_scheme" where
  "client_run get_connection_error c =
     (if get_connection_error then c else c\<lparr>connected := True, threads_started := True\<rparr>)"

definition client_wait :: "'m client_scheme \<Rightarrow> fault + unit" where
  "client_wait c = (if threads_started c then Inr () else Inl Null_dereference)"

section \<open>Handlers\<close>

text \<open>A duration in microseconds as milliseconds, \<open>elapsed.count()/1000.0\<close>.\<close>

definition milliseconds :: "fp \<Rightarrow> int \<Rightarrow> double" where
  "milliseconds F us = ddiv F (rnd F (of_int us)) (Fin 1000)"

definition on_open :: "fp \<Rightarrow> int \<Rightarrow> 'm client_scheme \<Rightarrow> 'm client_scheme" where
  "on_open F elapsed c = c\<lparr>m_setupTime := Some (milliseconds F elapsed), m_open := True,
     history := history c @ [Opened]\<rparr>"

definition on_close :: "'m client_scheme \<Rightarrow> 'm client_scheme" where
  "on_close c = c\<lparr>m_done := True, history := history c @ [Closed_by_peer]\<rparr>"

definition on_fail :: "'m client_scheme \<Rightarrow> 'm client_scheme" where
  "on_fail c = c\<lparr>m_failed := True, m_done := True, history := history c @ [Connection_failed]\<rparr>"

definition on_message :: "fp \<Rightarrow> int \<Rightarrow> 'm client_scheme \<Rightarrow> 'm client_scheme" where
  "on_message F elapsed c = c\<lparr>m_message_pending := False,
     m_stats := m_stats c @ [milliseconds F elapsed], history := history c @ [Echo]\<rparr>"

section \<open>The telemetry loop\<close>

text \<open>\<open>m_message_length\<close> draws of the payload generator, each cast to \<open>char\<close>.\<close>

definition payload :: "(nat \<Rightarrow> int) \<Rightarrow> int \<Rightarrow> string" where
  "payload draws len = map (\<lambda>i. char_of (nat (draws i mod 256))) [0..<nat len]"

text \<open>
  One region of the loop. The inputs are the draws of the payload generator and whether the
  endpoint reports an error, for the send as an error code; the sleeps take time only. The
  \<open>close\<close> of the base class calls the form of the endpoint's \<open>close\<close> that throws on an error, and
  nothing catches it in this thread: the process is terminated.
\<close>

definition telemetry_step :: "(nat \<Rightarrow> int) \<Rightarrow> bool \<Rightarrow> 'm client_scheme \<Rightarrow> 'm client_scheme" where
  "telemetry_step draws ec c = (case pc c of
       Loop_head \<Rightarrow>
         if \<not> m_finite_messages c \<or> m_count c < m_total_messages c then c\<lparr>pc := Check\<rparr>
         else c\<lparr>pc := Loop_end\<rparr>
     | Check \<Rightarrow>
         if m_done c then c\<lparr>pc := Loop_end\<rparr>
         else if \<not> m_open c \<or> m_message_pending c then c\<lparr>pc := Loop_head\<rparr>
         else c\<lparr>pc := Build\<rparr>
     | Build \<Rightarrow> c\<lparr>m_count := m_count c + 1, pc := Send (payload draws (m_message_length c))\<rparr>
     | Send msg \<Rightarrow> c\<lparr>m_message_pending := True, pc := After_send ec,
         history := history c @ [Sent msg ec]\<rparr>
     | After_send e \<Rightarrow>
         if e then c\<lparr>m_message_pending := False, pc := Loop_head\<rparr> else c\<lparr>pc := Loop_head\<rparr>
     | Loop_end \<Rightarrow>
         if m_count c = m_total_messages c
         then c\<lparr>pc := if ec then Aborted else Stopped,
                history := history c @ [Close_called ''connection finished'']\<rparr>
         else c\<lparr>pc := Stopped, history := history c @ [Fail_called ''connection failed'']\<rparr>
     | Stopped \<Rightarrow> c
     | Aborted \<Rightarrow> c)"

section \<open>Statistics\<close>

text \<open>\<open>get_stats\<close>: the line the process reports. Reading an unset setup time is a fault.\<close>

definition stats_type :: "'m client_scheme \<Rightarrow> string" where
  "stats_type c = (if \<not> m_failed c then ''success'' else ''fail'' @ (if m_open c then ''-opened'' else []))"

definition stats_text :: "acc \<Rightarrow> 'm client_scheme \<Rightarrow> double \<Rightarrow> string" where
  "stats_text A c setupTime = stats_type c @ '' '' @ show_nat (length (m_stats c)) @ '' ''
     @ show_double (acc_min A (m_stats c)) @ '' '' @ show_double (acc_max A (m_stats c)) @ '' ''
     @ show_double (acc_mean A (m_stats c)) @ '' '' @ show_double (acc_variance A (m_stats c)) @ '' ''
     @ show_double setupTime"

definition get_stats :: "acc \<Rightarrow> 'm client_scheme \<Rightarrow> fault + string" where
  "get_stats A c = (case m_setupTime c of
       None \<Rightarrow> Inl Indeterminate_read
     | Some t \<Rightarrow> Inr (stats_text A c t))"

section \<open>Runs\<close>

text \<open>A step of either thread, as a relation: the scheduler and the environment choose.\<close>

inductive client_step :: "fp \<Rightarrow> client \<Rightarrow> client \<Rightarrow> bool" for F where
  opened: "connected c \<Longrightarrow> client_step F c (on_open F us c)"
| closed: "connected c \<Longrightarrow> client_step F c (on_close c)"
| failed: "connected c \<Longrightarrow> client_step F c (on_fail c)"
| echoed: "connected c \<Longrightarrow> client_step F c (on_message F us c)"
| telemetry: "threads_started c \<Longrightarrow> client_step F c (telemetry_step draws ec c)"

inductive client_reach :: "fp \<Rightarrow> client \<Rightarrow> client \<Rightarrow> bool" for F where
  start: "client_reach F c c"
| step: "client_reach F c d \<Longrightarrow> client_step F d e \<Longrightarrow> client_reach F c e"

end
