(* ===== verification/Listener_Websocket.thy ===== *)
theory Listener_Websocket
  imports Listener Base_Client
begin

text \<open>
  The process a listener starts (listener-websocket.cpp): it synchronises with the controller,
  receives one request, runs the connections it asks for and pushes their statistics. Its three
  sockets have the names of the listener's.

  Its world extends the sockets with what the endpoints of its connections do: whether they
  refuse the URI, and the state in which a client's two threads end. How a client gets there is
  the subject of the theory of the client; here it is a parameter.
\<close>

datatype join_result = Joined client | Never_ends

record wrk = "lst_sock net" +
  refuses :: "nat \<Rightarrow> string \<Rightarrow> bool"
  joins :: "nat \<Rightarrow> client \<Rightarrow> join_result"

section \<open>Identifiers\<close>

text \<open>The array \<open>client_id\<close>, and the C string it holds: what comes before its first NUL.\<close>

definition client_id_bytes :: bytes where
  "client_id_bytes = concat (map (\<lambda>i. map (\<lambda>j. char_of ((i div 2 ^ (4 * j)) mod 256 :: nat)) [0..<8]) [0, 8])"

definition c_string :: "bytes \<Rightarrow> string" where
  "c_string b = takeWhile (\<lambda>c. c \<noteq> CHR 0x00) b"

definition worker_id :: "string \<Rightarrow> string" where
  "worker_id clientName = clientName @ c_string client_id_bytes"

section \<open>The work\<close>

definition run_all :: "string \<Rightarrow> client list \<Rightarrow> (wrk, client list) prog" where
  "run_all uri clients w = Ret (map (\<lambda>(i, c). client_run (refuses w i uri) c) (enumerate 0 clients)) w"

text \<open>
  The joins, in the order of the vector. An exception in any of the threads terminates the
  process, whichever client the loop is waiting for.
\<close>

definition aborts :: "wrk \<Rightarrow> nat \<times> client \<Rightarrow> bool" where
  "aborts w p = (case p of (i, c) \<Rightarrow> threads_started c
     \<and> (case joins w i c of Joined d \<Rightarrow> pc d = Aborted | Never_ends \<Rightarrow> False))"

primrec wait_each :: "(nat \<times> client) list \<Rightarrow> (wrk, client list) prog" where
  "wait_each [] w = Ret [] w"
| "wait_each (p # ps) w = (case p of (i, c) \<Rightarrow>
     (case client_wait c of
        Inl e \<Rightarrow> Throw e w
      | Inr u \<Rightarrow> (case joins w i c of
            Never_ends \<Rightarrow> Stuck w
          | Joined d \<Rightarrow> bindM (wait_each ps) (\<lambda>ds. returnM (d # ds)) w)))"

definition wait_all :: "client list \<Rightarrow> (wrk, client list) prog" where
  "wait_all clients w = (if list_ex (aborts w) (enumerate 0 clients) then Throw Terminated w
     else wait_each (enumerate 0 clients) w)"

definition push_stats :: "acc \<Rightarrow> client \<Rightarrow> (wrk, bool) prog" where
  "push_stats A c = (case get_stats A c of
       Inl e \<Rightarrow> throwM e
     | Inr stats \<Rightarrow>
         bindM (s_sendmore Sink ''Result'') (\<lambda>_.
         bindM (s_sendmore Sink stats) (\<lambda>_.
         s_send Sink [])))"

primrec push_all :: "acc \<Rightarrow> client list \<Rightarrow> (wrk, unit) prog" where
  "push_all A [] = returnM ()"
| "push_all A (c # cs) = bindM (push_stats A c) (\<lambda>_. push_all A cs)"

definition doTheWork :: "acc \<Rightarrow> string \<Rightarrow> string \<Rightarrow> int \<Rightarrow> bool \<Rightarrow> bool \<Rightarrow> int \<Rightarrow> int \<Rightarrow> int \<Rightarrow> (wrk, unit) prog" where
  "doTheWork A clientName uri n send_msgs randomized ival msgs len =
     bindM (run_all uri (replicate (nat n) (base_client (worker_id clientName) msgs randomized ival len))) (\<lambda>started.
     bindM (wait_all started) (\<lambda>finished.
     push_all A finished))"

section \<open>The request\<close>

text \<open>The variables the parameters are read into; \<open>None\<close> is a variable never assigned.\<close>

record request =
  rq_uri :: string
  rq_instances :: "int option"
  rq_send_messages :: "bool option"
  rq_randomized :: "bool option"
  rq_interval :: "int option"
  rq_messages :: "int option"
  rq_message_length :: "int option"

definition empty_request :: request where
  "empty_request = \<lparr>rq_uri = [], rq_instances = None, rq_send_messages = None, rq_randomized = None,
     rq_interval = None, rq_messages = None, rq_message_length = None\<rparr>"

definition read_param :: "nat \<Rightarrow> bytes \<Rightarrow> request \<Rightarrow> request" where
  "read_param i text r = (let ss = istringstream text in
     if i = 0 then r\<lparr>rq_uri := fst (extract_string ss (rq_uri r))\<rparr>
     else if i = 1 then r\<lparr>rq_instances := fst (extract_int ss (rq_instances r))\<rparr>
     else if i = 2 then r\<lparr>rq_send_messages := fst (extract_bool ss (rq_send_messages r))\<rparr>
     else if i = 3 then r\<lparr>rq_randomized := fst (extract_bool ss (rq_randomized r))\<rparr>
     else if i = 4 then r\<lparr>rq_interval := fst (extract_int ss (rq_interval r))\<rparr>
     else if i = 5 then r\<lparr>rq_messages := fst (extract_int ss (rq_messages r))\<rparr>
     else if i = 6 then r\<lparr>rq_message_length := fst (extract_int ss (rq_message_length r))\<rparr>
     else r)"

definition param_count :: nat where
  "param_count = 7"

primrec read_params :: "nat list \<Rightarrow> request \<Rightarrow> (wrk, request) prog" where
  "read_params [] r = returnM r"
| "read_params (i # is) r = bindM (s_recv Subscriber) (\<lambda>text. read_params is (read_param i text r))"

text \<open>An exception that \<open>std::exception\<close> catches: of the faults, those of the ZeroMQ binding.\<close>

definition catch_exception :: "('w, unit) prog \<Rightarrow> ('w, unit) prog" where
  "catch_exception p w = (case p w of Throw (Zmq_error e) w' \<Rightarrow> Ret () w' | r \<Rightarrow> r)"

text \<open>The parameters are printed and passed by value: each must have been assigned.\<close>

definition work_on :: "acc \<Rightarrow> string \<Rightarrow> request \<Rightarrow> (wrk, unit) prog" where
  "work_on A listenerName r =
     bindM (readM (rq_instances r)) (\<lambda>n.
     bindM (readM (rq_send_messages r)) (\<lambda>send_msgs.
     bindM (readM (rq_randomized r)) (\<lambda>randomized.
     bindM (readM (rq_interval r)) (\<lambda>ival.
     bindM (readM (rq_messages r)) (\<lambda>msgs.
     bindM (readM (rq_message_length r)) (\<lambda>len.
     catch_exception (doTheWork A listenerName (rq_uri r) n send_msgs randomized ival msgs len)))))))"

section \<open>The program\<close>

function await_request :: "acc \<Rightarrow> string \<Rightarrow> (wrk, unit) prog" where
  "await_request A listenerName w =
     bindM (s_recv Subscriber) (\<lambda>processingRequest w1.
       if processingRequest = ''StartWebsockets''
       then bindM (read_params [0..<param_count] empty_request) (\<lambda>r.
            bindM (s_recv Subscriber) (\<lambda>delimiter. work_on A listenerName r)) w1
       else await_request A listenerName w1) w"
  by pat_completeness auto
termination
  by (relation "measure (\<lambda>(A, name, w). length (inbox w Subscriber))") (auto dest!: s_recv_shrinks)

function await_socket_hello :: "acc \<Rightarrow> string \<Rightarrow> (wrk, unit) prog" where
  "await_socket_hello A listenerName w =
     bindM (s_recv Subscriber) (\<lambda>msg w1.
       if msg = ''HELLO_SOCKET''
       then bindM (s_send Syncclient listenerName) (\<lambda>_.
            bindM (s_recv Syncclient) (\<lambda>_. await_request A listenerName)) w1
       else await_socket_hello A listenerName w1) w"
  by pat_completeness auto
termination
  by (relation "measure (\<lambda>(A, name, w). length (inbox w Subscriber))") (auto dest!: s_recv_shrinks)

declare await_request.simps [simp del] await_socket_hello.simps [simp del]

definition worker_name :: "string list \<Rightarrow> string" where
  "worker_name argv = (if length argv \<ge> 2 then argv ! 1 else [])"

definition worker_address :: "string list \<Rightarrow> string" where
  "worker_address argv = (if length argv \<ge> 3 then argv ! 2 else ''localhost'')"

definition connect_worker :: "string \<Rightarrow> (wrk, unit) prog" where
  "connect_worker address =
     thenM (socket_open Subscriber ZMQ_SUB)
    (thenM (socket_connect Subscriber (''tcp://'' @ address @ '':5561''))
    (thenM (socket_setsockopt Subscriber ZMQ_SUBSCRIBE ''StartWebsockets'')
    (thenM (socket_setsockopt Subscriber ZMQ_SUBSCRIBE ''HELLO_SOCKET'')
    (thenM (socket_open Syncclient ZMQ_REQ)
    (thenM (socket_connect Syncclient (''tcp://'' @ address @ '':5563''))
    (thenM (socket_open Sink ZMQ_PUSH)
    (socket_connect Sink (''tcp://'' @ address @ '':5564''))))))))"

definition worker_main :: "acc \<Rightarrow> string list \<Rightarrow> (wrk, int) prog" where
  "worker_main A argv =
     thenM (connect_worker (worker_address argv))
    (bindM (await_socket_hello A (worker_name argv)) (\<lambda>_.
     thenM (socket_close Sink)
    (thenM (socket_close Syncclient)
    (thenM (socket_close Subscriber)
    (returnM 0)))))"

end
