(* ===== verification/Worker_Props.thy ===== *)
theory Worker_Props
  imports Listener_Websocket Controller_Props Listener_Props
begin

text \<open>
  What a client process guarantees: it reads the controller's request as it was published, and
  pushes the statistics of all its connections, or of none.
\<close>

section \<open>The request\<close>

definition config_ok :: "config \<Rightarrow> bool" where
  "config_ok c \<longleftrightarrow> int_range (instances c) \<and> int_range (interval c) \<and> int_range (messages c)
     \<and> int_range (message_length c)"

definition request_of :: "config \<Rightarrow> request" where
  "request_of c = \<lparr>rq_uri = server_uri, rq_instances = Some (instances c),
     rq_send_messages = Some (send_messages c), rq_randomized = Some (randomized_interval c),
     rq_interval = Some (interval c), rq_messages = Some (messages c),
     rq_message_length = Some (message_length c)\<rparr>"

lemma server_uri_word: "extract_string (istringstream server_uri) old = (server_uri, \<lparr>rest = [], failbit = False\<rparr>)"
proof -
  have "word_text server_uri" by code_simp
  then show ?thesis using extract_string_word[of server_uri "[]" old] by (simp add: istringstream_def)
qed

lemma param_indices: "[0..<param_count] = [0, 1, 2, 3, 4, 5, 6]"
  by code_simp

text \<open>The worker's world with fewer answers left.\<close>

definition listened :: "delivery list \<Rightarrow> wrk \<Rightarrow> wrk \<Rightarrow> bool" where
  "listened ds w w' \<longleftrightarrow> inbox w' = (inbox w)(Subscriber := ds) \<and> api_ok w' = api_ok w
     \<and> refuses w' = refuses w \<and> joins w' = joins w \<and> (\<forall>n. sent n (trace w') = sent n (trace w))"

lemma wrk_simps [simp]:
  "refuses (took n d ds w) = refuses w" "joins (took n d ds w) = joins w"
  "refuses (did n c w) = refuses w" "joins (did n c w) = joins w"
  by (simp_all add: took_def did_def)

lemma read_params_roundtrip:
  assumes "config_ok c" "inbox w Subscriber = deliver (tl (start_websockets_request c)) @ ds"
  shows "\<exists>w'. bindM (read_params [0..<param_count] empty_request) (\<lambda>r.
      bindM (s_recv Subscriber) (\<lambda>delimiter. f r)) w = f (request_of c) w' \<and> listened ds w w'"
  using assms
  by (intro exI conjI)
    (simp add: param_indices deliver_def start_websockets_request_def exec_simps bindM_assoc
      read_param_def empty_request_def request_of_def server_uri_word extract_int_istringstream
      extract_bool_istringstream config_ok_def, simp add: listened_def)

section \<open>The results\<close>

definition result_message :: "acc \<Rightarrow> client \<Rightarrow> bytes list" where
  "result_message A c = [''Result'', stats_text A c (the (m_setupTime c)), []]"

lemma push_all_ok:
  assumes "api_ok w" "list_all (\<lambda>c. m_setupTime c \<noteq> None) cs"
  shows "\<exists>w'. push_all A cs w = Ret () w' \<and> api_ok w'
    \<and> sent Sink (trace w') = sent Sink (trace w) @ concat (map multipart (map (result_message A) cs))
    \<and> sent Syncclient (trace w') = sent Syncclient (trace w)"
  using assms
proof (induction cs arbitrary: w)
  case Nil
  then show ?case by (simp add: returnM_def)
next
  case (Cons c cs)
  from Cons.prems obtain t where t: "m_setupTime c = Some t" by auto
  let ?w = "did Sink (Zmq_msg_send [] False) (did Sink (Zmq_msg_send (stats_text A c t) True)
    (did Sink (Zmq_msg_send ''Result'' True) w))"
  have "push_all A (c # cs) w = push_all A cs ?w"
    using Cons.prems t by (simp add: push_stats_def get_stats_def bindM_assoc exec_simps)
  with Cons.IH[of ?w] Cons.prems t show ?case by (auto simp: result_message_def)
qed

lemma wait_each_ok:
  assumes "\<And>i c. (i, c) \<in> set ps \<Longrightarrow> threads_started c \<and> joins w i c = Joined (end_of i)"
  shows "wait_each ps w = Ret (map (\<lambda>(i, c). end_of i) ps) w"
  using assms
proof (induction ps)
  case (Cons p ps)
  obtain i c where p: "p = (i, c)" by (cases p)
  then have "threads_started c" "joins w i c = Joined (end_of i)"
    using Cons.prems[of i c] by auto
  moreover have "wait_each ps w = Ret (map (\<lambda>(i, c). end_of i) ps) w"
    by (rule Cons.IH, rule Cons.prems) simp
  ultimately show ?case
    by (simp add: p client_wait_def bindM_def returnM_def)
qed simp

lemma enumerate_replicate: "enumerate k (replicate n x) = map (\<lambda>i. (i, x)) [k..<k + n]"
proof (induction n arbitrary: k)
  case (Suc n)
  then show ?case using upt_conv_Cons[of k "k + Suc n"] by simp
qed simp

text \<open>The clients a request starts, and the state in which each ends.\<close>

definition new_client :: "string \<Rightarrow> config \<Rightarrow> client" where
  "new_client name c = base_client (worker_id name) (messages c) (randomized_interval c) (interval c) (message_length c)"

definition clients_end :: "config \<Rightarrow> client \<Rightarrow> client list \<Rightarrow> wrk \<Rightarrow> bool" where
  "clients_end c c0 ds w \<longleftrightarrow> length ds = nat (instances c)
     \<and> list_all (\<lambda>i. \<not> refuses w i server_uri \<and> joins w i c0 = Joined (ds ! i)
           \<and> pc (ds ! i) = Stopped \<and> m_setupTime (ds ! i) \<noteq> None) [0..<nat (instances c)]"

lemma clients_end_opened: "clients_end c c0 ds w \<Longrightarrow> list_all (\<lambda>d. m_setupTime d \<noteq> None) ds"
  by (auto simp: clients_end_def list_all_iff in_set_conv_nth)

lemma doTheWork_joins:
  assumes "clients_end c (client_run False (new_client name c)) ds w"
  shows "doTheWork A name server_uri (instances c) s (randomized_interval c) (interval c) (messages c) (message_length c) w
    = push_all A ds w"
proof -
  let ?n = "nat (instances c)" and ?c = "client_run False (new_client name c)"
  have law: "\<not> refuses w i server_uri" "joins w i ?c = Joined (ds ! i)" "pc (ds ! i) = Stopped" if "i < ?n" for i
    using assms that by (auto simp: clients_end_def list_all_iff)
  have started: "threads_started ?c" by (simp add: client_run_def)
  have run: "run_all server_uri (replicate ?n (new_client name c)) w = Ret (replicate ?n ?c) w"
    by (simp add: run_all_def enumerate_replicate) (rule nth_equalityI, simp_all add: law)
  have "\<not> list_ex (aborts w) (enumerate 0 (replicate ?n ?c))"
    by (auto simp: enumerate_replicate list_ex_iff aborts_def law)
  moreover have "wait_each (enumerate 0 (replicate ?n ?c)) w
      = Ret (map (\<lambda>(i, c). ds ! i) (enumerate 0 (replicate ?n ?c))) w"
    by (rule wait_each_ok) (auto simp: enumerate_replicate law started)
  moreover have "map (\<lambda>(i, c). ds ! i) (enumerate 0 (replicate ?n ?c)) = ds"
    using assms map_nth[of ds] by (simp add: enumerate_replicate clients_end_def comp_def)
  ultimately have "wait_all (replicate ?n ?c) w = Ret ds w"
    by (simp add: wait_all_def)
  with run show ?thesis
    by (simp add: doTheWork_def bindM_def new_client_def)
qed

section \<open>The program\<close>

lemma listened_refl: "inbox w Subscriber = ds \<Longrightarrow> listened ds w w"
  by (auto simp: listened_def)

lemma listened_trans: "listened ds w w1 \<Longrightarrow> listened es w1 w2 \<Longrightarrow> listened es w w2"
  by (simp add: listened_def)

lemma listened_took: "listened ds w (took Subscriber d ds w)"
  by (simp add: listened_def)

lemma await_socket_hello_skips:
  assumes "list_all (says_not ''HELLO_SOCKET'') noise" "inbox w Subscriber = noise @ ds"
  shows "\<exists>w'. await_socket_hello A name w = await_socket_hello A name w' \<and> listened ds w w'"
  using assms
proof (induction noise arbitrary: w)
  case Nil
  then show ?case by (intro exI[of _ w]) (simp add: listened_refl)
next
  case (Cons d noise)
  then obtain b f where d: "d = Delivered b f" "b \<noteq> ''HELLO_SOCKET''" by (cases d) auto
  let ?w = "took Subscriber d (noise @ ds) w"
  have "await_socket_hello A name w = await_socket_hello A name ?w"
    using Cons.prems d by (subst await_socket_hello.simps) (simp add: exec_simps)
  moreover have "\<exists>w'. await_socket_hello A name ?w = await_socket_hello A name w' \<and> listened ds ?w w'"
    using Cons.prems by (intro Cons.IH) simp_all
  ultimately show ?case using listened_trans[OF listened_took] by metis
qed

lemma await_request_skips:
  assumes "list_all (says_not ''StartWebsockets'') noise" "inbox w Subscriber = noise @ ds"
  shows "\<exists>w'. await_request A name w = await_request A name w' \<and> listened ds w w'"
  using assms
proof (induction noise arbitrary: w)
  case Nil
  then show ?case by (intro exI[of _ w]) (simp add: listened_refl)
next
  case (Cons d noise)
  then obtain b f where d: "d = Delivered b f" "b \<noteq> ''StartWebsockets''" by (cases d) auto
  let ?w = "took Subscriber d (noise @ ds) w"
  have "await_request A name w = await_request A name ?w"
    using Cons.prems d by (subst await_request.simps) (simp add: exec_simps)
  moreover have "\<exists>w'. await_request A name ?w = await_request A name w' \<and> listened ds ?w w'"
    using Cons.prems by (intro Cons.IH) simp_all
  ultimately show ?case using listened_trans[OF listened_took] by metis
qed

lemma await_request_works:
  assumes "config_ok c" "inbox w Subscriber = deliver (start_websockets_request c) @ ds"
  shows "\<exists>w'. await_request A name w = work_on A name (request_of c) w' \<and> listened ds w w'"
proof -
  let ?ds = "deliver (tl (start_websockets_request c)) @ ds"
  let ?w = "took Subscriber (Delivered ''StartWebsockets'' True) ?ds w"
  have "inbox w Subscriber = Delivered ''StartWebsockets'' True # ?ds"
    using assms(2) by (simp add: deliver_def start_websockets_request_def)
  then have "await_request A name w = bindM (read_params [0..<param_count] empty_request) (\<lambda>r.
      bindM (s_recv Subscriber) (\<lambda>delimiter. work_on A name r)) ?w"
    by (subst await_request.simps) (simp add: exec_simps)
  moreover obtain w' where "bindM (read_params [0..<param_count] empty_request) (\<lambda>r.
      bindM (s_recv Subscriber) (\<lambda>delimiter. work_on A name r)) ?w = work_on A name (request_of c) w'"
    "listened ds ?w w'"
    using read_params_roundtrip[OF assms(1), of ?w ds "work_on A name"] by auto
  ultimately show ?thesis using listened_trans[OF listened_took] by metis
qed

lemma await_socket_hello_syncs:
  assumes "api_ok w" "inbox w Subscriber = Delivered ''HELLO_SOCKET'' f # ds"
    "inbox w Syncclient = Delivered r g # rs"
  shows "await_socket_hello A name w = await_request A name (took Syncclient (Delivered r g) rs
      (did Syncclient (Zmq_msg_send name False) (took Subscriber (Delivered ''HELLO_SOCKET'' f) ds w)))"
  using assms by (subst await_socket_hello.simps) (simp add: exec_simps)

lemma connect_worker_ok:
  assumes "api_ok w"
  shows "\<exists>w'. connect_worker addr w = Ret () w' \<and> listened (inbox w Subscriber) w w'"
  using assms by (simp add: connect_worker_def prog_simps listened_def)

lemma close_worker_ok:
  assumes "api_ok w"
  shows "\<exists>w'. thenM (socket_close Sink) (thenM (socket_close Syncclient) (thenM (socket_close Subscriber) (returnM r))) w
      = Ret r w' \<and> (\<forall>n. sent n (trace w') = sent n (trace w))"
  using assms by (simp add: prog_simps)

lemma work_on_request:
  "work_on A name (request_of c) w = catch_exception (doTheWork A name server_uri (instances c) (send_messages c)
     (randomized_interval c) (interval c) (messages c) (message_length c)) w"
  by (simp add: work_on_def request_of_def prog_simps)

lemma worker_main_run:
  assumes ok: "api_ok w" and c: "config_ok c"
    and noise: "list_all (says_not ''HELLO_SOCKET'') noise1" "list_all (says_not ''StartWebsockets'') noise2"
    and inbox: "inbox w Subscriber = noise1 @ Delivered ''HELLO_SOCKET'' False # noise2
        @ deliver (start_websockets_request c) @ ds" "inbox w Syncclient = Delivered r g # rs"
    and ends: "clients_end c (client_run False (new_client (worker_name argv) c)) cs w"
    and quiet: "sent Sink (trace w) = []" "sent Syncclient (trace w) = []"
  shows "\<exists>w'. worker_main A argv w = Ret 0 w'
    \<and> messages_of (sent Sink (trace w')) = map (result_message A) cs
    \<and> sent Syncclient (trace w') = [(worker_name argv, False)]"
proof -
  let ?name = "worker_name argv" and ?req = "deliver (start_websockets_request c) @ ds"
  obtain w1 where 1: "connect_worker (worker_address argv) w = Ret () w1" "listened (inbox w Subscriber) w w1"
    using connect_worker_ok[OF ok] by blast
  have in1: "inbox w1 Subscriber = noise1 @ Delivered ''HELLO_SOCKET'' False # noise2 @ ?req"
    using 1(2) inbox(1) by (simp add: listened_def)
  obtain w2 where 2: "await_socket_hello A ?name w1 = await_socket_hello A ?name w2"
    "listened (Delivered ''HELLO_SOCKET'' False # noise2 @ ?req) w1 w2"
    using await_socket_hello_skips[OF noise(1) in1] by blast
  let ?w3 = "took Syncclient (Delivered r g) rs (did Syncclient (Zmq_msg_send ?name False)
    (took Subscriber (Delivered ''HELLO_SOCKET'' False) (noise2 @ ?req) w2))"
  have 3: "await_socket_hello A ?name w2 = await_request A ?name ?w3"
    using ok 1(2) 2(2) inbox(2) by (intro await_socket_hello_syncs) (auto simp: listened_def)
  obtain w4 where 4: "await_request A ?name ?w3 = await_request A ?name w4" "listened ?req ?w3 w4"
    using await_request_skips[OF noise(2), of ?w3 ?req] by auto
  have in4: "inbox w4 Subscriber = ?req" using 4(2) by (simp add: listened_def)
  obtain w5 where 5: "await_request A ?name w4 = work_on A ?name (request_of c) w5" "listened ds w4 w5"
    using await_request_works[OF c in4] by blast
  have same: "api_ok w5" "sent Sink (trace w5) = []" "sent Syncclient (trace w5) = [(?name, False)]"
    "refuses w5 = refuses w" "joins w5 = joins w"
    using ok quiet 1(2) 2(2) 4(2) 5(2) by (simp_all add: listened_def)
  then have "clients_end c (client_run False (new_client ?name c)) cs w5"
    using ends by (simp add: clients_end_def)
  then have work: "work_on A ?name (request_of c) w5 = catch_exception (push_all A cs) w5"
    by (simp add: work_on_request catch_exception_def doTheWork_joins)
  obtain w6 where 6: "push_all A cs w5 = Ret () w6" "api_ok w6"
    "sent Sink (trace w6) = concat (map multipart (map (result_message A) cs))"
    "sent Syncclient (trace w6) = [(?name, False)]"
    using push_all_ok[OF same(1) clients_end_opened[OF ends], of A] same by auto
  obtain w7 where 7: "thenM (socket_close Sink) (thenM (socket_close Syncclient) (thenM (socket_close Subscriber) (returnM (0::int)))) w6
      = Ret 0 w7" "\<forall>n. sent n (trace w7) = sent n (trace w6)"
    using close_worker_ok[OF 6(2), of "0::int"] by blast
  have "worker_main A argv w = Ret 0 w7"
    using 1(1) 2(1) 3 4(1) 5(1) work 6(1) 7(1) by (simp add: worker_main_def thenM_def bindM_def catch_exception_def)
  moreover have "messages_of (concat (map multipart (map (result_message A) cs))) = map (result_message A) cs"
    by (rule messages_of_concat_multipart) (simp add: result_message_def list_all_iff)
  ultimately show ?thesis using 6 7(2) by auto
qed

text \<open>
  C8: the whole program of a client process. Given the hello and the request the controller
  publishes for a configuration, among other parts it ignores, it synchronises once under its
  name, starts as many clients as the configuration says, each with the configuration's
  messages, interval and length, and when all of them have ended pushes the statistics of each
  once, in the order of their creation, and returns 0.
\<close>

theorem worker_main_reports_every_client:
  assumes ok: "api_ok w" and c: "config_ok c"
    and noise: "list_all (says_not ''HELLO_SOCKET'') noise1" "list_all (says_not ''StartWebsockets'') noise2"
    and inbox: "inbox w Subscriber = noise1 @ Delivered ''HELLO_SOCKET'' False # noise2
        @ deliver (start_websockets_request c) @ ds" "inbox w Syncclient = Delivered r g # rs"
    and ends: "clients_end c (client_run False (new_client (worker_name argv) c)) cs w"
    and quiet: "sent Sink (trace w) = []" "sent Syncclient (trace w) = []"
  shows "\<exists>w'. worker_main A argv w = Ret 0 w'
    \<and> messages_of (sent Sink (trace w')) = map (result_message A) cs
    \<and> sent Syncclient (trace w') = [(worker_name argv, False)]"
  using assms by (rule worker_main_run)

section \<open>Processes that report nothing\<close>

lemma wait_each_not_started:
  assumes "(i, c) \<in> set ps" "\<not> threads_started c"
  shows "wait_each ps w = Throw Null_dereference w \<or> wait_each ps w = Stuck w"
  using assms
proof (induction ps)
  case (Cons p ps)
  obtain j d where p: "p = (j, d)" by (cases p)
  show ?case
  proof (cases "threads_started d")
    case False
    then show ?thesis by (simp add: p client_wait_def)
  next
    case True
    with Cons p have "wait_each ps w = Throw Null_dereference w \<or> wait_each ps w = Stuck w" by auto
    with True show ?thesis by (auto simp: p client_wait_def bindM_def split: join_result.split)
  qed
qed simp

text \<open>
  C16: one connection whose URI the endpoint refuses costs the process all its results. The client
  logs the refusal and returns without threads, the process then joins threads that were never
  created, and whatever the other connections achieve nothing is pushed.
\<close>

theorem refused_client_loses_all:
  assumes "i < nat n" "refuses w i uri"
  shows "doTheWork A name uri n s randomized ival msgs len w
    \<in> {Throw Null_dereference w, Throw Terminated w, Stuck w}"
proof -
  let ?c = "base_client (worker_id name) msgs randomized ival len"
  let ?cs = "map (\<lambda>i. client_run (refuses w i uri) ?c) [0..<nat n]"
  have run: "run_all uri (replicate (nat n) ?c) w = Ret ?cs w"
    by (simp add: run_all_def enumerate_replicate)
  have "?cs ! i = client_run True ?c" using assms by simp
  then have "(i, client_run True ?c) \<in> set (enumerate 0 ?cs)"
    using assms(1) by (auto simp: in_set_enumerate_eq)
  moreover have "\<not> threads_started (client_run True ?c)"
    by (simp add: client_run_def base_client_def)
  ultimately show ?thesis
    using wait_each_not_started[of i "client_run True ?c" "enumerate 0 ?cs" w] run
    by (auto simp: doTheWork_def bindM_def wait_all_def)
qed



section \<open>A run\<close>

definition small_end :: client where
  "small_end = (client_run False (new_client ''Client1-0'' small_config))\<lparr>m_open := True, m_count := 1,
     m_stats := [Fin 2], m_setupTime := Some (Fin 3), pc := Stopped\<rparr>"

definition wrk_world :: wrk where
  "wrk_world = \<lparr>inbox = (\<lambda>n. case n of
       Subscriber \<Rightarrow> Delivered ''HELLO_SOCKET'' False # Delivered ''HELLO_SOCKET'' False
         # deliver (start_websockets_request small_config)
     | Syncclient \<Rightarrow> [Delivered [] False]
     | Sink \<Rightarrow> []),
     api = serving_api, live = (\<lambda>n. False), trace = [], refuses = (\<lambda>i uri. False),
     joins = (\<lambda>i c. Joined small_end)\<rparr>"

lemma small_numbers:
  "show_double (Fin 2) = ''2''" "show_double (Fin 3) = ''3''" "show_double (Fin 0) = ''0''" "show_nat (Suc 0) = ''1''"
  by (simp_all add: show_double_def show_pos_def sig6_def dec_exp_def pow10_def Let_def round_half_even_def
      show_nat.simps digit_char_def char_of_def bit_0 with_point_def strip_zeros_def)

lemma small_end_reported: "result_message exact_acc small_end = [''Result'', ''success 1 2 2 2 0 3'', []]"
  by (simp add: result_message_def small_end_def stats_text_def stats_type_def client_run_def new_client_def
      base_client_def exact_acc_def mean_of_def variance_of_def small_numbers)

lemma small_config_ok: "config_ok small_config"
  by (simp add: config_ok_def int_range_def int_min_def int_max_def)

lemma small_clients_end: "joins w = joins wrk_world \<Longrightarrow> refuses w = refuses wrk_world \<Longrightarrow>
  clients_end small_config c0 [small_end] w"
  by (simp add: clients_end_def wrk_world_def small_end_def)

theorem worker_main_reports_every_client_witness:
  "\<exists>w'. worker_main exact_acc [''listener-websocket'', ''Client1-0''] wrk_world = Ret 0 w'
    \<and> messages_of (sent Sink (trace w')) = [[''Result'', ''success 1 2 2 2 0 3'', []]]
    \<and> sent Syncclient (trace w') = [(''Client1-0'', False)]"
  using worker_main_reports_every_client[of wrk_world small_config "[]" "[Delivered ''HELLO_SOCKET'' False]" "[]"
      "[]" False "[]" "[''listener-websocket'', ''Client1-0'']" "[small_end]" exact_acc]
  by (simp add: wrk_world_def api_ok_serving small_config_ok small_clients_end small_end_reported worker_name_def)

theorem refused_client_loses_all_witness:
  "doTheWork exact_acc ''Client1-0'' server_uri 2 True True 60 1 240 (wrk_world\<lparr>refuses := (\<lambda>i uri. i = 1)\<rparr>)
   \<in> {Throw Null_dereference (wrk_world\<lparr>refuses := (\<lambda>i uri. i = 1)\<rparr>),
      Throw Terminated (wrk_world\<lparr>refuses := (\<lambda>i uri. i = 1)\<rparr>),
      Stuck (wrk_world\<lparr>refuses := (\<lambda>i uri. i = 1)\<rparr>)}"
  by (rule refused_client_loses_all[of 1]) simp_all


end
