(* ===== verification/Base_Client_Props.thy ===== *)
theory Base_Client_Props
  imports Base_Client
begin

text \<open>
  What a client guarantees in every interleaving of its two threads: invariants of the reachable
  states, by induction over the steps, and what the telemetry loop does when the peer answers
  or stays silent.
\<close>

section \<open>Views of a history\<close>

primrec is_sent :: "client_event \<Rightarrow> bool" where
  "is_sent Opened = False" | "is_sent Closed_by_peer = False" | "is_sent Connection_failed = False"
| "is_sent Echo = False" | "is_sent (Sent msg ec) = True" | "is_sent (Close_called s) = False"
| "is_sent (Fail_called s) = False"

definition is_accepted :: "client_event \<Rightarrow> bool" where
  "is_accepted e \<longleftrightarrow> (\<exists>msg. e = Sent msg False)"

definition ends_connection :: "client_event \<Rightarrow> bool" where
  "ends_connection e \<longleftrightarrow> e = Closed_by_peer \<or> e = Connection_failed"

definition is_final :: "client_event \<Rightarrow> bool" where
  "is_final e \<longleftrightarrow> (\<exists>s. e = Close_called s \<or> e = Fail_called s)"

lemma event_simps [simp]:
  "\<not> is_accepted Opened" "\<not> is_accepted Closed_by_peer" "\<not> is_accepted Connection_failed" "\<not> is_accepted Echo"
  "is_accepted (Sent msg ec) \<longleftrightarrow> \<not> ec" "\<not> is_accepted (Close_called s)" "\<not> is_accepted (Fail_called s)"
  "\<not> ends_connection Opened" "ends_connection Closed_by_peer" "ends_connection Connection_failed"
  "\<not> ends_connection Echo" "\<not> ends_connection (Sent msg ec)" "\<not> ends_connection (Close_called s)"
  "\<not> ends_connection (Fail_called s)"
  "\<not> is_final Opened" "\<not> is_final Closed_by_peer" "\<not> is_final Connection_failed" "\<not> is_final Echo"
  "\<not> is_final (Sent msg ec)" "is_final (Close_called s)" "is_final (Fail_called s)"
  by (simp_all add: is_accepted_def ends_connection_def is_final_def)

text \<open>Send attempts, sends the endpoint accepted, echoes, and final calls.\<close>

definition count_of :: "(client_event \<Rightarrow> bool) \<Rightarrow> client_event list \<Rightarrow> nat" where
  "count_of P h = length (filter P h)"

lemma count_of_simps [simp]:
  "count_of P [] = 0" "count_of P [e] = (if P e then 1 else 0)" "count_of P (h @ [e]) = count_of P h + (if P e then 1 else 0)"
  by (simp_all add: count_of_def)

text \<open>What comes after the connection was closed or failed.\<close>

definition after_end :: "client_event list \<Rightarrow> client_event list" where
  "after_end h = dropWhile (\<lambda>e. \<not> ends_connection e) h"

lemma after_end_append: "after_end (h @ [e]) =
  (if \<exists>x\<in>set h. ends_connection x then after_end h @ [e] else if ends_connection e then [e] else [])"
  by (induction h) (auto simp: after_end_def)

section \<open>The flags mirror the history\<close>

definition flags_inv :: "client \<Rightarrow> bool" where
  "flags_inv c \<longleftrightarrow>
     (m_open c \<longleftrightarrow> Opened \<in> set (history c)) \<and> (m_setupTime c \<noteq> None \<longleftrightarrow> Opened \<in> set (history c))
     \<and> (m_failed c \<longleftrightarrow> Connection_failed \<in> set (history c))
     \<and> (m_done c \<longleftrightarrow> (\<exists>e\<in>set (history c). ends_connection e))
     \<and> length (m_stats c) = count_of (\<lambda>e. e = Echo) (history c)"

lemmas handler_defs = on_open_def on_close_def on_fail_def on_message_def

lemma failed_done: "flags_inv c \<Longrightarrow> m_failed c \<Longrightarrow> m_done c"
  unfolding flags_inv_def by (metis event_simps(10))

lemma flags_inv_step: "client_step F c d \<Longrightarrow> flags_inv c \<Longrightarrow> flags_inv d"
  by (induction rule: client_step.induct)
    (auto simp: flags_inv_def handler_defs telemetry_step_def split: region.split if_splits)

section \<open>The telemetry loop\<close>

definition fixed :: "client \<Rightarrow> client \<Rightarrow> bool" where
  "fixed c d \<longleftrightarrow> m_total_messages d = m_total_messages c \<and> m_finite_messages d = m_finite_messages c
     \<and> m_message_length d = m_message_length c \<and> threads_started d = threads_started c
     \<and> connected d = connected c"

lemma fixed_step: "client_step F c d \<Longrightarrow> fixed c d"
  by (induction rule: client_step.induct)
    (auto simp: fixed_def handler_defs telemetry_step_def split: region.split)

lemma fixed_reach: "client_reach F c d \<Longrightarrow> fixed c d"
  by (induction rule: client_reach.induct) (auto simp: fixed_def dest!: fixed_step)

text \<open>Where the loop is, against what it has done.\<close>

definition loop_inv :: "client \<Rightarrow> bool" where
  "loop_inv c \<longleftrightarrow> m_finite_messages c \<and> 0 \<le> m_count c
     \<and> m_count c = int (count_of is_sent (history c)) + (case pc c of Send msg \<Rightarrow> 1 | _ \<Rightarrow> 0)
     \<and> count_of is_final (history c) = (if pc c = Stopped \<or> pc c = Aborted then 1 else 0)
     \<and> (case pc c of
          Check \<Rightarrow> m_count c < m_total_messages c
        | Build \<Rightarrow> m_count c < m_total_messages c \<and> m_open c \<and> \<not> m_message_pending c
        | Send msg \<Rightarrow> m_count c \<le> m_total_messages c \<and> m_open c \<and> \<not> m_message_pending c
            \<and> length msg = nat (m_message_length c)
        | Loop_end \<Rightarrow> m_count c = m_total_messages c \<or> m_count c < m_total_messages c \<and> m_done c
        | Stopped \<Rightarrow> (if m_count c = m_total_messages c
            then Close_called ''connection finished'' \<in> set (history c)
            else m_count c < m_total_messages c \<and> m_done c \<and> Fail_called ''connection failed'' \<in> set (history c))
        | Aborted \<Rightarrow> m_count c = m_total_messages c
        | _ \<Rightarrow> m_count c \<le> m_total_messages c)
     \<and> (\<forall>msg ec. Sent msg ec \<in> set (history c) \<longrightarrow> length msg = nat (m_message_length c))"

lemma loop_inv_step: "client_step F c d \<Longrightarrow> loop_inv c \<Longrightarrow> loop_inv d"
proof (induction rule: client_step.induct)
  case (telemetry c draws ec)
  then show ?case
    by (cases "pc c") (auto simp: loop_inv_def telemetry_step_def payload_def)
qed (auto simp: loop_inv_def handler_defs split: region.splits)

text \<open>At most one message is in flight, and at most one is sent after the connection ended.\<close>

definition window_inv :: "client \<Rightarrow> bool" where
  "window_inv c \<longleftrightarrow>
     count_of is_accepted (history c) \<le> count_of (\<lambda>e. e = Echo) (history c) + 1
     \<and> (\<not> m_message_pending c \<or> pc c = After_send True \<longrightarrow>
           count_of is_accepted (history c) \<le> count_of (\<lambda>e. e = Echo) (history c))
     \<and> count_of is_sent (after_end (history c)) + (case pc c of Build \<Rightarrow> 1 | Send msg \<Rightarrow> 1 | _ \<Rightarrow> 0) \<le> 1"

lemma after_end_Nil: "after_end h = [] \<longleftrightarrow> \<not> (\<exists>e\<in>set h. ends_connection e)"
  by (auto simp: after_end_def dropWhile_eq_Nil_conv)

lemma window_inv_step:
  assumes "client_step F c d" "flags_inv c" "loop_inv c" "window_inv c"
  shows "window_inv d"
  using assms
proof (induction rule: client_step.induct)
  case (telemetry c draws ec)
  then have ended: "m_done c \<longleftrightarrow> after_end (history c) \<noteq> []" by (simp add: flags_inv_def after_end_Nil)
  show ?case
  proof (cases "pc c")
    case (Send msg)
    with telemetry ended show ?thesis
      by (auto simp: window_inv_def loop_inv_def telemetry_step_def after_end_append after_end_Nil)
  qed (use telemetry ended in \<open>auto simp: window_inv_def telemetry_step_def after_end_append split: if_splits\<close>)
next
  case (opened c us)
  then show ?case
    by (cases "pc c") (auto simp: window_inv_def handler_defs after_end_append)
next
  case (closed c)
  then show ?case
    by (cases "pc c") (auto simp: window_inv_def handler_defs after_end_append)
next
  case (failed c)
  then show ?case
    by (cases "pc c") (auto simp: window_inv_def handler_defs after_end_append)
next
  case (echoed c us)
  then show ?case
    by (cases "pc c") (auto simp: window_inv_def handler_defs after_end_append)
qed

definition client_inv :: "client \<Rightarrow> bool" where
  "client_inv c \<longleftrightarrow> flags_inv c \<and> loop_inv c \<and> window_inv c"

lemma client_inv_step: "client_step F c d \<Longrightarrow> client_inv c \<Longrightarrow> client_inv d"
  unfolding client_inv_def using flags_inv_step loop_inv_step window_inv_step by blast

lemma client_inv_reach: "client_reach F c d \<Longrightarrow> client_inv c \<Longrightarrow> client_inv d"
  by (induction rule: client_reach.induct) (auto dest: client_inv_step)

definition started_client :: "string \<Rightarrow> int \<Rightarrow> bool \<Rightarrow> int \<Rightarrow> int \<Rightarrow> client" where
  "started_client ident msgs rand ival len = client_run False (base_client ident msgs rand ival len)"

lemma client_inv_start: "0 \<le> msgs \<Longrightarrow> client_inv (started_client ident msgs rand ival len)"
  by (simp add: client_inv_def flags_inv_def loop_inv_def window_inv_def started_client_def client_run_def
      base_client_def after_end_def)

lemma started_fixed:
  assumes "client_reach F (started_client ident msgs rand ival len) c"
  shows "m_total_messages c = msgs" "m_message_length c = len" "threads_started c" "connected c" "m_finite_messages c"
  using fixed_reach[OF assms]
  by (simp_all add: fixed_def started_client_def client_run_def base_client_def)

text \<open>
  C9: in every interleaving, what a client has sent is bounded: never more messages than it was
  asked for, each of the configured length, at most one of those the endpoint accepted still
  without its echo, and at most one sent after the connection was closed or failed.
\<close>

theorem client_sends_bounded:
  assumes "client_reach F (started_client ident msgs rand ival len) c" "0 \<le> msgs"
  shows "int (count_of is_sent (history c)) \<le> msgs
    \<and> list_all (\<lambda>e. case e of Sent msg ec \<Rightarrow> length msg = nat len | _ \<Rightarrow> True) (history c)
    \<and> count_of is_accepted (history c) \<le> length (m_stats c) + 1
    \<and> count_of is_sent (after_end (history c)) \<le> 1"
proof -
  have inv: "client_inv c" using client_inv_reach[OF assms(1) client_inv_start[OF assms(2)]] .
  have "int (count_of is_sent (history c)) \<le> msgs"
    using inv started_fixed(1)[OF assms(1)] assms(2)
    by (cases "pc c") (auto simp: client_inv_def loop_inv_def split: if_splits)
  moreover have "list_all (\<lambda>e. case e of Sent msg ec \<Rightarrow> length msg = nat len | _ \<Rightarrow> True) (history c)"
    using inv started_fixed(2)[OF assms(1)]
    by (auto simp: client_inv_def loop_inv_def list_all_iff split: client_event.split)
  ultimately show ?thesis
    using inv by (simp add: client_inv_def flags_inv_def window_inv_def Let_def)
qed

section \<open>How a client ends\<close>

text \<open>
  C11: a client whose telemetry thread has ended has made its last call exactly once, and the call
  tells the truth: it closes the connection as finished only after as many messages as
  configured, and gives up as failed only with messages left and after the connection was
  closed by the peer or failed.
\<close>

theorem client_end_is_truthful:
  assumes "client_reach F (started_client ident msgs rand ival len) c" "0 \<le> msgs" "pc c = Stopped"
  shows "count_of is_final (history c) = 1
    \<and> (if Close_called ''connection finished'' \<in> set (history c)
        then int (count_of is_sent (history c)) = msgs
        else Fail_called ''connection failed'' \<in> set (history c) \<and> int (count_of is_sent (history c)) < msgs
          \<and> (\<exists>e\<in>set (history c). ends_connection e))"
proof -
  have inv: "loop_inv c" "flags_inv c"
    using client_inv_reach[OF assms(1) client_inv_start[OF assms(2)]] by (simp_all add: client_inv_def)
  have m: "m_total_messages c = msgs" by (rule started_fixed[OF assms(1)])
  have one: "count_of is_final (history c) = 1" using inv(1) assms(3) by (simp add: loop_inv_def)
  show ?thesis
  proof (cases "m_count c = msgs")
    case True
    with one inv(1) m assms(3) show ?thesis by (simp add: loop_inv_def)
  next
    case False
    with inv(1) m assms(3) have f: "Fail_called ''connection failed'' \<in> set (history c)" "m_count c < msgs" "m_done c"
      by (simp_all add: loop_inv_def)
    have "Close_called ''connection finished'' \<notin> set (history c)"
    proof
      assume a: "Close_called ''connection finished'' \<in> set (history c)"
      from one obtain x where x: "filter is_final (history c) = [x]"
        by (auto simp: count_of_def length_Suc_conv)
      have "Close_called ''connection finished'' \<in> set (filter is_final (history c))"
        "Fail_called ''connection failed'' \<in> set (filter is_final (history c))"
        using a f(1) by simp_all
      then show False unfolding x by auto
    qed
    with f inv m one assms(3) show ?thesis by (simp add: loop_inv_def flags_inv_def)
  qed
qed

text \<open>
  C12: the statistics of a client can be read exactly when its connection was opened at some
  point: otherwise the line contains a setup time nothing has assigned. When they can, the line
  says "success" exactly when the connection never failed, and counts the echoes received.
\<close>

theorem get_stats_needs_open:
  assumes "client_reach F (started_client ident msgs rand ival len) c" "0 \<le> msgs"
  shows "(get_stats A c = Inl Indeterminate_read \<longleftrightarrow> Opened \<notin> set (history c))
    \<and> (Opened \<in> set (history c) \<longrightarrow> (\<exists>t. m_setupTime c = Some t \<and> get_stats A c = Inr (stats_text A c t)))
    \<and> stats_type c = (if Connection_failed \<notin> set (history c) then ''success''
         else if Opened \<in> set (history c) then ''fail-opened'' else ''fail'')
    \<and> length (m_stats c) = count_of (\<lambda>e. e = Echo) (history c)"
proof -
  have "flags_inv c"
    using client_inv_reach[OF assms(1) client_inv_start[OF assms(2)]] by (simp add: client_inv_def)
  then show ?thesis
    by (cases "m_setupTime c") (auto simp: flags_inv_def get_stats_def stats_type_def)
qed

section \<open>Progress\<close>

lemma client_reach_first: "client_step F c d \<Longrightarrow> client_reach F d e \<Longrightarrow> client_reach F c e"
  by (rotate_tac, induction rule: client_reach.induct) (auto intro: client_reach.intros)

text \<open>What is left to do when the peer echoes each message at the next occasion.\<close>

definition work_left :: "client \<Rightarrow> nat" where
  "work_left c = 10 * nat (m_total_messages c - m_count c) + (if m_message_pending c then 2 else 0)
     + (case pc c of Loop_head \<Rightarrow> 3 | Check \<Rightarrow> 2 | Build \<Rightarrow> 1 | Send msg \<Rightarrow> 9 | After_send ec \<Rightarrow> 6
        | Loop_end \<Rightarrow> 1 | Stopped \<Rightarrow> 0 | Aborted \<Rightarrow> 0)"

definition next_step :: "fp \<Rightarrow> client \<Rightarrow> client" where
  "next_step F c = (if m_message_pending c \<and> pc c \<noteq> Stopped then on_message F 0 c
     else telemetry_step (\<lambda>_. 32) False c)"

definition going :: "client \<Rightarrow> bool" where
  "going c \<longleftrightarrow> client_inv c \<and> threads_started c \<and> client.connected c \<and> m_open c \<and> \<not> m_done c \<and> pc c \<noteq> Aborted"

lemma next_step_going:
  assumes "going c" "pc c \<noteq> Stopped"
  shows "client_step F c (next_step F c)" "going (next_step F c)" "work_left (next_step F c) < work_left c"
proof -
  show step: "client_step F c (next_step F c)"
    using assms by (auto simp: going_def next_step_def intro: client_step.intros)
  have "client_inv (next_step F c)" "fixed c (next_step F c)"
    using client_inv_step[OF step] fixed_step[OF step] assms(1) by (auto simp: going_def)
  then show "going (next_step F c)"
    using assms by (cases "pc c") (auto simp: going_def next_step_def fixed_def on_message_def telemetry_step_def)
  have "loop_inv c" using assms(1) by (simp add: going_def client_inv_def)
  then show "work_left (next_step F c) < work_left c"
    using assms
    by (cases "pc c") (auto simp: next_step_def on_message_def telemetry_step_def work_left_def loop_inv_def going_def)
qed

lemma going_finishes:
  "going c \<Longrightarrow> \<exists>d. client_reach F c d \<and> pc d = Stopped \<and> going d"
proof (induction "work_left c" arbitrary: c rule: less_induct)
  case less
  show ?case
  proof (cases "pc c = Stopped")
    case True
    with less.prems show ?thesis by (blast intro: client_reach.start)
  next
    case False
    with less.hyps[of "next_step F c"] next_step_going[OF less.prems, of F] client_reach_first show ?thesis by blast
  qed
qed

text \<open>
  C10: no deadlock. From every reachable state in which the connection is open and neither closed
  nor failed, the client can still finish: if the peer answers, it sends the messages that are
  left, closes the connection as finished and reports success.
\<close>

theorem open_client_can_finish:
  assumes "client_reach F (started_client ident msgs rand ival len) c" "0 \<le> msgs"
    and "m_open c" "\<not> m_done c" "pc c \<noteq> Aborted"
  shows "\<exists>d. client_reach F c d \<and> pc d = Stopped \<and> int (count_of is_sent (history d)) = msgs
    \<and> Close_called ''connection finished'' \<in> set (history d) \<and> stats_type d = ''success''"
proof -
  have "going c"
    using client_inv_reach[OF assms(1) client_inv_start[OF assms(2)]] started_fixed[OF assms(1)] assms(3-)
    by (simp add: going_def)
  then obtain d where d: "client_reach F c d" "pc d = Stopped" "going d" by (metis going_finishes)
  have "m_total_messages d = msgs" using fixed_reach[OF d(1)] started_fixed(1)[OF assms(1)] by (simp add: fixed_def)
  moreover have "\<not> m_failed d" using d(3) failed_done by (auto simp: going_def client_inv_def)
  ultimately show ?thesis using d
    by (intro exI[of _ d])
      (auto simp: going_def client_inv_def loop_inv_def flags_inv_def stats_type_def split: if_splits)
qed

definition blocked :: "client_event list \<Rightarrow> client \<Rightarrow> bool" where
  "blocked h c \<longleftrightarrow> m_message_pending c \<and> \<not> m_done c \<and> m_finite_messages c
     \<and> m_count c < m_total_messages c \<and> (pc c = Loop_head \<or> pc c = Check) \<and> history c = h"

lemma blocked_foldl:
  "blocked h c \<Longrightarrow> blocked h (foldl (\<lambda>c (draws, ec). telemetry_step draws ec c) c inputs)"
proof (induction inputs arbitrary: c)
  case (Cons x inputs)
  obtain draws ec where x: "x = (draws, ec)" by (cases x)
  have "blocked h (telemetry_step draws ec c)"
    using Cons.prems by (auto simp: blocked_def telemetry_step_def)
  then show ?case using Cons.IH by (simp add: x)
qed simp


section \<open>A run\<close>

text \<open>
  A client of two messages: the connection opens, the first message is sent and echoed, then the
  second, and the loop ends.
\<close>

definition rounds :: "nat \<Rightarrow> client \<Rightarrow> client" where
  "rounds n c = foldl (\<lambda>c (draws, ec). telemetry_step draws ec c) c (replicate n (\<lambda>_. 65, False))"

definition demo_start :: client where
  "demo_start = started_client ''Client1-0'' 2 False 1 3"

definition demo_pending :: client where
  "demo_pending = rounds 5 (on_open exact_fp 5000 demo_start)"

definition demo_end :: client where
  "demo_end = rounds 2 (on_message exact_fp 2000 (rounds 5 (on_message exact_fp 1000 demo_pending)))"

lemma reach_rounds:
  "client_reach F a c \<Longrightarrow> threads_started c \<Longrightarrow>
     client_reach F a (rounds n c) \<and> threads_started (rounds n c) \<and> client.connected (rounds n c) = client.connected c"
proof (induction n arbitrary: c)
  case 0
  then show ?case by (simp add: rounds_def)
next
  case (Suc n)
  let ?d = "telemetry_step (\<lambda>_. 65) False c"
  have s: "client_step F c ?d" using Suc.prems by (intro client_step.telemetry)
  with Suc.prems have "client_reach F a ?d" "threads_started ?d" "client.connected ?d = client.connected c"
    using fixed_step[OF s] by (auto intro: client_reach.step simp: fixed_def)
  with Suc.IH[of ?d] show ?case by (simp add: rounds_def)
qed

lemma reach_handler:
  assumes "client_reach F a c" "client.connected c" "threads_started c"
  shows "client_reach F a (on_open F us c)" "client_reach F a (on_message F us c)"
    "threads_started (on_open F us c)" "threads_started (on_message F us c)"
    "client.connected (on_open F us c)" "client.connected (on_message F us c)"
proof -
  show "client_reach F a (on_open F us c)" "client_reach F a (on_message F us c)"
    using assms by (auto intro: client_reach.step client_step.intros)
qed (use assms in \<open>simp_all add: handler_defs\<close>)

lemma demo_reach:
  "client_reach exact_fp demo_start demo_pending" "client_reach exact_fp demo_start demo_end"
proof -
  have 0: "client.connected demo_start" "threads_started demo_start"
    by (simp_all add: demo_start_def started_client_def client_run_def)
  note 1 = reach_handler[OF client_reach.start 0, of exact_fp 5000]
  note 2 = reach_rounds[OF 1(1) 1(3), of 5, folded demo_pending_def]
  then show "client_reach exact_fp demo_start demo_pending" by simp
  have 3: "client_reach exact_fp demo_start demo_pending" "client.connected demo_pending" "threads_started demo_pending"
    using 1 2 by simp_all
  note 4 = reach_handler[OF 3, of 1000]
  note 5 = reach_rounds[OF 4(2) 4(4), of 5]
  from 4(6) 5 have 6: "client_reach exact_fp demo_start (rounds 5 (on_message exact_fp 1000 demo_pending))"
    "client.connected (rounds 5 (on_message exact_fp 1000 demo_pending))"
    "threads_started (rounds 5 (on_message exact_fp 1000 demo_pending))" by simp_all
  note 7 = reach_handler[OF 6, of 2000]
  show "client_reach exact_fp demo_start demo_end"
    using reach_rounds[OF 7(2) 7(4), of 2] by (simp add: demo_end_def)
qed

lemma demo_history: "history demo_end = [Opened, Sent ''AAA'' False, Echo, Sent ''AAA'' False, Echo,
    Close_called ''connection finished'']" "pc demo_end = Stopped"
  by code_simp+

lemma demo_pending_state: "m_message_pending demo_pending" "\<not> m_done demo_pending" "m_finite_messages demo_pending"
  "m_count demo_pending < m_total_messages demo_pending" "pc demo_pending = Loop_head" "m_open demo_pending"
  by code_simp+

theorem client_sends_bounded_witness:
  "int (count_of is_sent (history demo_end)) \<le> 2
    \<and> list_all (\<lambda>e. case e of Sent msg ec \<Rightarrow> length msg = nat 3 | _ \<Rightarrow> True) (history demo_end)
    \<and> count_of is_accepted (history demo_end) \<le> length (m_stats demo_end) + 1
    \<and> count_of is_sent (after_end (history demo_end)) \<le> 1"
  by (rule client_sends_bounded[OF demo_reach(2)[unfolded demo_start_def]]) simp

theorem client_end_is_truthful_witness:
  "count_of is_final (history demo_end) = 1 \<and> int (count_of is_sent (history demo_end)) = 2"
  using client_end_is_truthful[OF demo_reach(2)[unfolded demo_start_def]] by (simp add: demo_history)

theorem get_stats_needs_open_witness:
  "get_stats exact_acc demo_end \<noteq> Inl Indeterminate_read \<and> get_stats exact_acc demo_start = Inl Indeterminate_read
    \<and> stats_type demo_end = ''success'' \<and> length (m_stats demo_end) = 2"
  using get_stats_needs_open[OF demo_reach(2)[unfolded demo_start_def], of exact_acc]
    get_stats_needs_open[OF client_reach.start[of exact_fp "started_client ''Client1-0'' 2 False 1 3"], of exact_acc]
  by (auto simp: demo_history demo_start_def started_client_def client_run_def base_client_def count_of_def)

theorem open_client_can_finish_witness:
  "\<exists>d. client_reach exact_fp demo_pending d \<and> pc d = Stopped \<and> int (count_of is_sent (history d)) = 2
    \<and> Close_called ''connection finished'' \<in> set (history d) \<and> stats_type d = ''success''"
  using open_client_can_finish[OF demo_reach(1)[unfolded demo_start_def]] demo_pending_state by simp


end
