(* ===== verification/Results.thy ===== *)
theory Results
  imports Controller_Props Base_Client
begin

text \<open>
  The line of statistics on its way from a client to the controller's report: what the controller
  reads is what the client wrote, up to six significant digits; what that costs in the reported
  mean; and which lines the controller cannot read.
\<close>

section \<open>Reading the line\<close>

definition finite_stats :: "acc \<Rightarrow> double list \<Rightarrow> bool" where
  "finite_stats A xs \<longleftrightarrow> list_all (\<lambda>f. \<exists>r. f A xs = Fin r) [acc_min, acc_max, acc_mean, acc_variance]"

lemma stats_type_word: "word_text (stats_type c)"
  by (auto simp: stats_type_def word_text_def is_space_def)

lemma to_string_count: "show_nat n = to_string (int n)"
  by (simp add: to_string_def)

lemma blank_simps [simp]: "blank_next []" "blank_next (CHR '' '' # t)"
  by (simp_all add: blank_next_def)

lemma extract_double_shown:
  assumes "blank_next t" "rnd F (round6 r) = Fin v"
  shows "extract_double F \<lparr>rest = CHR '' '' # show_double (Fin r) @ t, failbit = False\<rparr> old
         = (Some (Fin v), \<lparr>rest = t, failbit = False\<rparr>)"
  by (simp add: extract_double_blank sentry_show_double extract_double_show[OF assms])

lemma extract_int_shown:
  assumes "int_range (int n)" "delimited t"
  shows "extract_int \<lparr>rest = CHR '' '' # show_nat n @ t, failbit = False\<rparr> old
         = (Some (int n), \<lparr>rest = t, failbit = False\<rparr>)"
  using assms by (simp add: to_string_count extract_int_space sentry_to_string extract_int_to_string)

text \<open>The prefix of every line: its type and its count.\<close>

lemma read_prefix:
  assumes "int_range (int n)"
  shows "extract_string (istringstream (stats_type c @ '' '' @ show_nat n @ '' '' @ t)) []
      = (stats_type c, \<lparr>rest = CHR '' '' # show_nat n @ CHR '' '' # t, failbit = False\<rparr>)"
    and "extract_int \<lparr>rest = CHR '' '' # show_nat n @ CHR '' '' # t, failbit = False\<rparr> None
      = (Some (int n), \<lparr>rest = CHR '' '' # t, failbit = False\<rparr>)"
  using extract_string_word[OF stats_type_word, of "CHR '' '' # show_nat n @ CHR '' '' # t" c "[]"] extract_int_shown[OF assms]
  by (simp_all add: istringstream_def)

lemma parse_stats_text:
  assumes "int_range (int (length xs))" "m_stats c = xs"
    and "acc_min A xs = Fin r1" "acc_max A xs = Fin r2" "acc_mean A xs = Fin r3" "acc_variance A xs = Fin r4"
    and "rnd F (round6 r1) = Fin v1" "rnd F (round6 r2) = Fin v2" "rnd F (round6 r3) = Fin v3"
    "rnd F (round6 r4) = Fin v4" "rnd F (round6 r5) = Fin v5"
  shows "parse_result F (stats_text A c (Fin r5)) = \<lparr>rv_type = stats_type c, rv_count = Some (int (length xs)),
    rv_min = Some (Fin v1), rv_max = Some (Fin v2), rv_mean = Some (Fin v3), rv_variance = Some (Fin v4),
    rv_setup = Some (Fin v5)\<rparr>"
  using assms(2-) extract_double_shown[of "[]" F r5 v5]
  by (simp add: parse_result_def stats_text_def extract_double_shown read_prefix[OF assms(1), simplified])

text \<open>A line without an echo: its mean is not a number, and reading stops there.\<close>

lemma parse_stats_text_no_echo:
  assumes "m_stats c = []" "acc_min A [] = Fin r1" "acc_max A [] = Fin r2" "acc_mean A [] = NaN b"
    and "rnd F (round6 r1) = Fin v1" "rnd F (round6 r2) = Fin v2"
  shows "rv_setup (parse_result F (stats_text A c s)) = None"
proof -
  have range: "int_range (int 0)" by (simp add: int_range_def int_min_def int_max_def)
  let ?t = "CHR '' '' # show_double (acc_variance A []) @ CHR '' '' # show_double s"
  define e where "e = extract_double F \<lparr>rest = CHR '' '' # show_double (NaN b) @ ?t, failbit = False\<rparr> None"
  have "failbit (snd e)"
    using extract_double_special(2)[of "NaN b" F ?t None]
    by (simp add: e_def extract_double_blank sentry_show_double)
  then show ?thesis
    using assms
    by (simp add: parse_result_def stats_text_def extract_double_shown e_def[symmetric] extract_double_failed
        read_prefix[OF range, simplified] split_def Let_def del: show_nat.simps)
qed

definition reads_back :: "fp \<Rightarrow> rat \<Rightarrow> double option \<Rightarrow> bool" where
  "reads_back F r d \<longleftrightarrow> d = Some (rnd F (round6 r)) \<and> \<bar>round6 r - r\<bar> \<le> \<bar>r\<bar> / 200000"

text \<open>
  C19: the line of a client with at least one echo survives the way: the controller reads back its
  type and its count exactly, and each of its five numbers as the double nearest to its six
  leading digits, which is within five parts in a million of the number the client wrote.
\<close>

theorem result_line_roundtrip:
  assumes "int_range (int (length (m_stats c)))"
    and "acc_min A (m_stats c) = Fin mi" "acc_max A (m_stats c) = Fin ma"
    and "acc_mean A (m_stats c) = Fin me" "acc_variance A (m_stats c) = Fin va"
    and "\<And>r. r \<in> {mi, ma, me, va, setupT} \<Longrightarrow> \<exists>v. rnd F (round6 r) = Fin v"
  shows "let r = parse_result F (stats_text A c (Fin setupT)) in
    rv_type r = stats_type c \<and> rv_count r = Some (int (length (m_stats c)))
    \<and> reads_back F mi (rv_min r) \<and> reads_back F ma (rv_max r) \<and> reads_back F me (rv_mean r)
    \<and> reads_back F va (rv_variance r) \<and> reads_back F setupT (rv_setup r)"
proof -
  obtain v1 v2 v3 v4 v5 where "rnd F (round6 mi) = Fin v1" "rnd F (round6 ma) = Fin v2"
    "rnd F (round6 me) = Fin v3" "rnd F (round6 va) = Fin v4" "rnd F (round6 setupT) = Fin v5"
    using assms(6) by (metis insertCI)
  with parse_stats_text[OF assms(1) refl assms(2-5) this] round6_error show ?thesis
    by (simp add: reads_back_def Let_def)
qed

text \<open>
  C20: a connection that was opened but received no echo makes the controller read a variable it
  never assigned. The mean of no samples is not a number; its text is not one for \<open>operator>>\<close>,
  the stream fails there, and the setup time that is pushed into the statistics next was never
  read.
\<close>

theorem silent_connection_faults_controller:
  assumes "m_stats c = []" "acc_min A [] = Fin mi" "acc_max A [] = Fin ma" "acc_mean A [] = NaN b"
    and "rnd F (round6 mi) = Fin v1" "rnd F (round6 ma) = Fin v2"
    and "m_setupTime c = Some setupT"
  shows "\<exists>line. get_stats A c = Inr line \<and> add_result F cfg line t w = Throw Indeterminate_read w"
  using parse_stats_text_no_echo[OF assms(1-6), of setupT] assms(7)
  by (simp add: get_stats_def add_result_def Let_def prog_simps)

section \<open>The reported mean\<close>

text \<open>
  A client that measured the latencies \<open>xs\<close>, with statistics that are exact where the report uses
  them.
\<close>

definition measured :: "acc \<Rightarrow> client \<times> rat list \<Rightarrow> bool" where
  "measured A p \<longleftrightarrow> (case p of (c, xs) \<Rightarrow> xs \<noteq> [] \<and> m_stats c = map Fin xs
     \<and> acc_mean A (m_stats c) = Fin (mean_of xs)
     \<and> (\<exists>mi ma va s. acc_min A (m_stats c) = Fin mi \<and> acc_max A (m_stats c) = Fin ma
           \<and> acc_variance A (m_stats c) = Fin va \<and> m_setupTime c = Some (Fin s)))"

definition line_of :: "acc \<Rightarrow> client \<times> rat list \<Rightarrow> string" where
  "line_of A p = stats_text A (fst p) (the (m_setupTime (fst p)))"

definition succeeded :: "config \<Rightarrow> client \<times> rat list \<Rightarrow> bool" where
  "succeeded cfg p \<longleftrightarrow> stats_type (fst p) = ''success'' \<and> int (length (snd p)) = messages cfg"

definition rounded_sum :: "(client \<times> rat list) list \<Rightarrow> rat" where
  "rounded_sum ps = sum_list (map (\<lambda>p. round6 (mean_of (snd p)) * of_nat (length (snd p))) ps)"

definition total_samples :: "(client \<times> rat list) list \<Rightarrow> int" where
  "total_samples ps = sum_list (map (\<lambda>p. int (length (snd p))) ps)"

text \<open>What a list of results has added to a tally.\<close>

definition tallied :: "config \<Rightarrow> (client \<times> rat list) list \<Rightarrow> tally \<Rightarrow> tally \<Rightarrow> bool" where
  "tallied cfg ps t t' \<longleftrightarrow>
     (\<exists>a v. meansum t = Fin a \<and> meansum t' = Fin (a + rounded_sum ps) \<and> variancesum t' = Fin v)
     \<and> totalcount t' = totalcount t + total_samples ps
     \<and> samples t' = samples t + int (length ps)
     \<and> resultsReceived t' = resultsReceived t + int (length ps)
     \<and> connectionsSucceeded t' = connectionsSucceeded t + int (length (filter (succeeded cfg) ps))
     \<and> connectionsDied t' = connectionsDied t + int (length (filter (\<lambda>p. \<not> succeeded cfg p) ps))
     \<and> clientsFinished t' = clientsFinished t \<and> clientsDied t' = clientsDied t"

lemma add_result_measured:
  assumes F: "rnd F = Fin" and p: "measured A p" and len: "int_range (int (length (snd p)))"
    and total: "int_range (totalcount t + int (length (snd p)))"
    and fin: "meansum t = Fin a" "variancesum t = Fin v"
  shows "\<exists>t'. add_result F cfg (line_of A p) t w = Ret t' w \<and> tallied cfg [p] t t'"
proof -
  obtain c xs where pc: "p = (c, xs)" by (cases p)
  with p obtain mi ma va s where st: "xs \<noteq> []" "m_stats c = map Fin xs" "acc_mean A (map Fin xs) = Fin (mean_of xs)"
    "acc_min A (map Fin xs) = Fin mi" "acc_max A (map Fin xs) = Fin ma" "acc_variance A (map Fin xs) = Fin va"
    "m_setupTime c = Some (Fin s)" by (auto simp: measured_def)
  have "int_range (int (length (map Fin xs)))" using len pc by simp
  from parse_stats_text[OF this st(2) st(4,5,3,6), of F] F
  have parse: "parse_result F (line_of A p) = \<lparr>rv_type = stats_type c, rv_count = Some (int (length xs)),
    rv_min = Some (Fin (round6 mi)), rv_max = Some (Fin (round6 ma)), rv_mean = Some (Fin (round6 (mean_of xs))),
    rv_variance = Some (Fin (round6 va)), rv_setup = Some (Fin (round6 s))\<rparr>"
    by (simp add: line_of_def pc st(7))
  have pos: "0 < messages cfg" if "int (length xs) = messages cfg" using st(1) that[symmetric] by simp
  show ?thesis
    using total fin F st(1)
    by (auto dest: pos simp: pc add_result_def parse[unfolded pc] count_connection_def add_latency_def add_int_def prog_simps Let_def
        tallied_def rounded_sum_def total_samples_def succeeded_def double_of_int_def)
qed

lemma tallied_Cons: "tallied cfg [p] t t1 \<Longrightarrow> tallied cfg ps t1 t2 \<Longrightarrow> tallied cfg (p # ps) t t2"
  by (auto simp: tallied_def rounded_sum_def total_samples_def)

lemma total_samples_nonneg: "0 \<le> total_samples ps"
  unfolding total_samples_def by (induction ps) auto

lemma total_samples_Cons: "total_samples (p # ps) = int (length (snd p)) + total_samples ps"
  by (simp add: total_samples_def)

lemma total_samples_length: "total_samples ps = int (length (concat (map snd ps)))"
  by (induction ps) (simp_all add: total_samples_Cons, simp add: total_samples_def)

lemma tally_spec_results:
  assumes "rnd F = Fin" "list_all (measured A) ps" "0 \<le> totalcount t" "int_range (totalcount t + total_samples ps)"
    "meansum t = Fin a" "variancesum t = Fin v" "clientsFinished t + clientsDied t < n"
  shows "\<exists>t'. tally_spec F cfg n (map (\<lambda>p. Result_msg (line_of A p)) ps @ ms) t = tally_spec F cfg n ms t'
    \<and> tallied cfg ps t t'"
  using assms
proof (induction ps arbitrary: t a v)
  case Nil
  then show ?case by (intro exI[of _ t]) (simp add: tallied_def rounded_sum_def total_samples_def)
next
  case (Cons p ps)
  have range: "int_range (int (length (snd p)))" "int_range (totalcount t + int (length (snd p)))"
    using Cons.prems(3,4) total_samples_nonneg[of ps]
    by (auto simp: total_samples_Cons int_range_def int_min_def)
  obtain t1 where t1: "add_result F cfg (line_of A p) t () = Ret t1 ()" "tallied cfg [p] t t1"
    using add_result_measured[OF Cons.prems(1) _ range Cons.prems(5,6), of A cfg "()"] Cons.prems(2) by auto
  then obtain v1 where f: "meansum t1 = Fin (a + rounded_sum [p])" "variancesum t1 = Fin v1"
    "clientsFinished t1 + clientsDied t1 < n" "totalcount t1 = totalcount t + int (length (snd p))"
    using Cons.prems(5,7) by (auto simp: tallied_def total_samples_Cons total_samples_def)
  obtain t' where "tally_spec F cfg n (map (\<lambda>p. Result_msg (line_of A p)) ps @ ms) t1 = tally_spec F cfg n ms t'"
    "tallied cfg ps t1 t'"
    using Cons.IH[OF Cons.prems(1) _ _ _ f(1-3)] Cons.prems(2-4) f(4) by (auto simp: total_samples_Cons add.assoc)
  with t1 Cons.prems(7) tallied_Cons[OF t1(2)] show ?case by auto
qed

text \<open>The ends of the processes that follow.\<close>

lemma tally_spec_ends:
  assumes "clientsFinished t + clientsDied t + int (length sts) = n"
  shows "\<exists>t'. tally_spec F cfg n (map Finished_msg sts) t = Ret t' ()
    \<and> clientsFinished t' = clientsFinished t + int (length (filter (\<lambda>s. s = ''0'') sts))
    \<and> clientsDied t' = clientsDied t + int (length (filter (\<lambda>s. s \<noteq> ''0'') sts))
    \<and> meansum t' = meansum t \<and> totalcount t' = totalcount t \<and> resultsReceived t' = resultsReceived t
    \<and> connectionsSucceeded t' = connectionsSucceeded t \<and> connectionsDied t' = connectionsDied t"
  using assms
proof (induction sts arbitrary: t)
  case (Cons s sts)
  then have "clientsFinished (add_finished s t) + clientsDied (add_finished s t) + int (length sts) = n"
    by (simp add: add_finished_def)
  from Cons.IH[OF this] Cons.prems show ?case by (auto simp: add_finished_def)
qed simp

lemma mean_of_concat:
  assumes "\<And>xs. xs \<in> set xss \<Longrightarrow> xs \<noteq> []"
  shows "sum_list (map (\<lambda>xs. mean_of xs * of_nat (length xs)) xss) = sum_list (concat xss)"
  using assms by (induction xss) (auto simp: mean_of_def)

lemma rounded_sum_error:
  assumes "list_all (\<lambda>p. \<forall>x\<in>set (snd p). 0 \<le> x) ps"
  shows "\<bar>rounded_sum ps - sum_list (map (\<lambda>p. mean_of (snd p) * of_nat (length (snd p))) ps)\<bar>
    \<le> sum_list (map (\<lambda>p. mean_of (snd p) * of_nat (length (snd p))) ps) / 200000"
  using assms
proof (induction ps)
  case (Cons p ps)
  let ?m = "mean_of (snd p)" and ?k = "of_nat (length (snd p)) :: rat"
  have pos: "0 \<le> ?m" using Cons.prems by (auto simp: mean_of_def intro!: divide_nonneg_nonneg sum_list_nonneg)
  have "\<bar>round6 ?m * ?k - ?m * ?k\<bar> = \<bar>round6 ?m - ?m\<bar> * ?k"
    by (simp add: left_diff_distrib[symmetric] abs_mult)
  also have "\<dots> \<le> \<bar>?m\<bar> / 200000 * ?k"
    by (rule mult_right_mono[OF round6_error]) simp
  finally have one: "\<bar>round6 ?m * ?k - ?m * ?k\<bar> \<le> ?m * ?k / 200000" using pos by simp
  let ?S = "sum_list (map (\<lambda>p. mean_of (snd p) * of_nat (length (snd p))) ps)"
  have two: "\<bar>rounded_sum ps - ?S\<bar> \<le> ?S / 200000" using Cons by simp
  have "\<bar>rounded_sum (p # ps) - (?m * ?k + ?S)\<bar> \<le> \<bar>round6 ?m * ?k - ?m * ?k\<bar> + \<bar>rounded_sum ps - ?S\<bar>"
    using abs_triangle_ineq[of "round6 ?m * ?k - ?m * ?k" "rounded_sum ps - ?S"]
    by (simp add: rounded_sum_def algebra_simps)
  also have "\<dots> \<le> (?m * ?k + ?S) / 200000"
    using add_mono[OF one two] by (simp add: add_divide_distrib)
  finally show ?case by simp
qed (simp add: rounded_sum_def)

lemma collected_results:
  assumes F: "rnd F = Fin" and ps: "list_all (measured A) ps" "ps \<noteq> []"
    and pos: "list_all (\<lambda>p. \<forall>x\<in>set (snd p). 0 \<le> x) ps" and range: "int_range (total_samples ps)"
    and ends: "int (length sts) = n" "0 < n"
  shows "\<exists>t m. tally_spec F cfg n (map (\<lambda>p. Result_msg (line_of A p)) ps @ map Finished_msg sts) empty_tally = Ret t ()
    \<and> overallMean F t = Fin m
    \<and> \<bar>m - mean_of (concat (map snd ps))\<bar> \<le> mean_of (concat (map snd ps)) / 200000
    \<and> clientsFinished t = int (length (filter (\<lambda>s. s = ''0'') sts))
    \<and> clientsDied t = int (length (filter (\<lambda>s. s \<noteq> ''0'') sts))
    \<and> connectionsSucceeded t = int (length (filter (succeeded cfg) ps))
    \<and> connectionsDied t = int (length (filter (\<lambda>p. \<not> succeeded cfg p) ps))"
proof -
  obtain t1 where 1: "tally_spec F cfg n (map (\<lambda>p. Result_msg (line_of A p)) ps @ map Finished_msg sts) empty_tally
      = tally_spec F cfg n (map Finished_msg sts) t1" "tallied cfg ps empty_tally t1"
    using tally_spec_results[OF F ps(1), of empty_tally 0 0 n cfg "map Finished_msg sts"] range ends
    by (auto simp: empty_tally_def)
  obtain t2 where 2: "tally_spec F cfg n (map Finished_msg sts) t1 = Ret t2 ()"
    "clientsFinished t2 = int (length (filter (\<lambda>s. s = ''0'') sts))"
    "clientsDied t2 = int (length (filter (\<lambda>s. s \<noteq> ''0'') sts))"
    "meansum t2 = Fin (rounded_sum ps)" "totalcount t2 = total_samples ps"
    "connectionsSucceeded t2 = int (length (filter (succeeded cfg) ps))"
    "connectionsDied t2 = int (length (filter (\<lambda>p. \<not> succeeded cfg p) ps))"
    using tally_spec_ends[of t1 sts n F cfg] 1(2) ends by (auto simp: tallied_def empty_tally_def)
  let ?S = "sum_list (concat (map snd ps))" and ?N = "total_samples ps"
  have ne: "xs \<noteq> []" if "xs \<in> set (map snd ps)" for xs
    using that ps(1) by (auto simp: list_all_iff measured_def)
  have N: "?N = int (length (concat (map snd ps)))"
    by (rule total_samples_length)
  have "snd (hd ps) \<noteq> []" using ps(2) ne[of "snd (hd ps)"] by simp
  then have "0 < ?N" unfolding N using ps(2) by (cases ps) (auto intro!: add_pos_nonneg)
  moreover have S: "sum_list (map (\<lambda>p. mean_of (snd p) * of_nat (length (snd p))) ps) = ?S"
    using mean_of_concat[of "map snd ps"] ne by (simp add: comp_def)
  moreover have mean: "mean_of (concat (map snd ps)) = ?S / of_int ?N" by (simp add: mean_of_def N)
  ultimately have "\<bar>rounded_sum ps / of_int ?N - mean_of (concat (map snd ps))\<bar> \<le> mean_of (concat (map snd ps)) / 200000"
    using divide_right_mono[OF rounded_sum_error[OF pos], of "of_int ?N"]
    by (simp add: diff_divide_distrib[symmetric])
  moreover have "overallMean F t2 = Fin (rounded_sum ps / of_int ?N)"
    using 2 F \<open>0 < ?N\<close> by (simp add: overallMean_def double_of_int_def)
  ultimately show ?thesis using 1(1) 2 by auto
qed


section \<open>A run\<close>

text \<open>Two clients, of one and two messages, and one process.\<close>

definition demo_measured :: "rat list \<Rightarrow> client \<times> rat list" where
  "demo_measured xs = ((base_client ''Client1-0'' (int (length xs)) True 60 240)\<lparr>m_stats := map Fin xs,
     m_setupTime := Some (Fin 3)\<rparr>, xs)"

lemma demo_measured_ok: "xs \<noteq> [] \<Longrightarrow> measured exact_acc (demo_measured xs)"
  by (simp add: measured_def demo_measured_def exact_acc_def comp_def)

theorem result_line_roundtrip_witness:
  "reads_back exact_fp 2 (rv_mean (parse_result exact_fp (stats_text exact_acc (fst (demo_measured [1, 3])) (Fin 3))))"
proof -
  have "let r = parse_result exact_fp (stats_text exact_acc (fst (demo_measured [1, 3])) (Fin 3)) in
    rv_type r = stats_type (fst (demo_measured [1, 3])) \<and> rv_count r = Some (int (length (m_stats (fst (demo_measured [1, 3])))))
    \<and> reads_back exact_fp 1 (rv_min r) \<and> reads_back exact_fp 3 (rv_max r) \<and> reads_back exact_fp 2 (rv_mean r)
    \<and> reads_back exact_fp 1 (rv_variance r) \<and> reads_back exact_fp 3 (rv_setup r)"
    by (rule result_line_roundtrip)
      (auto simp: demo_measured_def exact_acc_def mean_of_def variance_of_def int_range_def int_min_def int_max_def exact_fp_def)
  then show ?thesis by (simp add: Let_def)
qed

theorem silent_connection_faults_controller_witness:
  "\<exists>line. get_stats exact_acc ((fst (demo_measured []))\<lparr>m_setupTime := Some (Fin 3)\<rparr>) = Inr line
    \<and> add_result exact_fp default_config line empty_tally () = Throw Indeterminate_read ()"
  by (rule silent_connection_faults_controller[where b = True])
    (simp_all add: demo_measured_def exact_acc_def exact_fp_def)


end
