(* ===== verification/Mobile_Client.thy ===== *)
theory Mobile_Client
  imports Base_Client_Props "HOL-Library.Word"
begin

text \<open>
  The mobile signaling client (clients/mobile-signaling-client.hpp): a client with a primary
  connection to the server and a signaling connection to a coordinator, and the program that
  runs one (plain-client.cpp). It extends the base client: the state of the base class, its
  telemetry loop and its statistics are used as they are; sending, closing and the handlers are
  its own.
\<close>

unbundle bit_operations_syntax

section \<open>State\<close>

text \<open>Connections queued at the endpoint: the URI and the extension header that was set.\<close>

datatype link = Primary | Signaling

record queued =
  q_link :: link
  q_uri :: string
  q_header :: string

datatype channel_event =
    Tried link string bool
  | Closed link string
  | Stopped_perpetual

record mobile = client +
  m_client_id :: string
  m_hdl_primary :: "nat option"
  m_hdl_signaling :: "nat option"
  perpetual :: bool
  has_message_handler :: bool
  queue :: "queued list"
  channels :: "channel_event list"

definition coordinator :: string where
  "coordinator = ''ws://ec2-54-204-81-231.compute-1.amazonaws.com:9000''"

definition destination :: string where
  "destination = ''ws://ec2-54-196-58-229.compute-1.amazonaws.com:9002''"

definition mobile_signaling_client :: "string \<Rightarrow> int \<Rightarrow> bool \<Rightarrow> int \<Rightarrow> int \<Rightarrow> mobile" where
  "mobile_signaling_client ident msgs rand ival len =
     client.extend (base_client ident msgs rand ival len)
       \<lparr>m_client_id = ident, m_hdl_primary = None, m_hdl_signaling = None, perpetual = True,
        has_message_handler = True, queue = [], channels = []\<rparr>"

section \<open>Connecting\<close>

definition ext_header :: "string \<Rightarrow> string" where
  "ext_header connection_id = ''mobile-signaling; connection_id='' @ CHR 0x22 # connection_id @ [CHR 0x22]"

text \<open>
  Both take what the endpoint answers: no connection for the URI, or one with a handle. The
  connection is queued with its header.
\<close>

definition connect_primary :: "string \<Rightarrow> nat option \<Rightarrow> mobile \<Rightarrow> mobile" where
  "connect_primary uri con c = (case con of
       None \<Rightarrow> c
     | Some hdl \<Rightarrow> c\<lparr>m_hdl_primary := Some hdl, connected := True,
         queue := queue c @ [\<lparr>q_link = Primary, q_uri = uri, q_header = ext_header (m_client_id c)\<rparr>]\<rparr>)"

definition connect_signaling :: "string \<Rightarrow> string \<Rightarrow> nat option \<Rightarrow> mobile \<Rightarrow> mobile" where
  "connect_signaling uri connection_id con c = (case con of
       None \<Rightarrow> c
     | Some hdl \<Rightarrow> c\<lparr>m_hdl_signaling := Some hdl,
         queue := queue c @ [\<lparr>q_link = Signaling, q_uri = uri, q_header = ext_header connection_id\<rparr>]\<rparr>)"

text \<open>\<open>run\<close> takes the URI and connects to the destination of its configuration.\<close>

definition mobile_run :: "string \<Rightarrow> nat option \<Rightarrow> mobile \<Rightarrow> mobile" where
  "mobile_run uri con c = (connect_primary destination con c)\<lparr>threads_started := True\<rparr>"

section \<open>Handlers\<close>

text \<open>The extensions of a response: names with their attributes. The last match wins.\<close>

definition get_response_connection_id :: "(string \<times> (string \<rightharpoonup> string)) list \<Rightarrow> string" where
  "get_response_connection_id extensions =
     foldl (\<lambda>connection_id (name, a).
       if name = ''mobile-signaling''
       then (case a ''connection_id'' of Some v \<Rightarrow> v | None \<Rightarrow> connection_id)
       else connection_id) [] extensions"

definition on_open_primary :: "fp \<Rightarrow> int \<Rightarrow> nat \<Rightarrow> (string \<times> (string \<rightharpoonup> string)) list \<Rightarrow> nat option \<Rightarrow> mobile \<Rightarrow> mobile" where
  "on_open_primary F elapsed hdl extensions con c =
     connect_signaling coordinator (get_response_connection_id extensions) con
       (on_open F elapsed (c\<lparr>m_hdl_primary := Some hdl\<rparr>))"

definition on_close_primary :: "mobile \<Rightarrow> mobile" where
  "on_close_primary c = c"

definition on_close_signaling :: "mobile \<Rightarrow> mobile" where
  "on_close_signaling c = c"

text \<open>
  A failed connection ends the client only when the primary connection is closed or closing. The
  primary connection is looked up by its handle; when there is none the lookup reports an error
  and a null pointer, and the null pointer is used before the error is tested.
\<close>

datatype session_state = Connecting | Open | Closing | Closed_state

definition mobile_on_fail :: "(nat option \<Rightarrow> session_state option) \<Rightarrow> mobile \<Rightarrow> fault + mobile" where
  "mobile_on_fail get_con c = (case get_con (m_hdl_primary c) of
       None \<Rightarrow> Inl Null_dereference
     | Some state \<Rightarrow> if state = Closed_state \<or> state = Closing then Inr (on_fail c) else Inr c)"

definition on_message_either :: "fp \<Rightarrow> int \<Rightarrow> mobile \<Rightarrow> mobile" where
  "on_message_either F elapsed c = (if has_message_handler c then on_message F elapsed c else c)"

section \<open>Sending and closing\<close>

text \<open>\<open>send_message\<close>: the error codes of the two channels, the second only when it is tried.\<close>

definition mobile_send :: "string \<Rightarrow> bool \<Rightarrow> bool \<Rightarrow> mobile \<Rightarrow> bool \<times> mobile" where
  "mobile_send msg ec1 ec2 c =
     (if \<not> ec1 then (False, c\<lparr>channels := channels c @ [Tried Primary msg False]\<rparr>)
      else (ec2, c\<lparr>channels := channels c @ [Tried Primary msg True, Tried Signaling msg ec2]\<rparr>))"

definition mobile_close :: "string \<Rightarrow> mobile \<Rightarrow> mobile" where
  "mobile_close status c = c\<lparr>perpetual := False,
     channels := channels c @ [Closed Signaling status, Closed Primary status, Stopped_perpetual]\<rparr>"

definition mobile_fail :: "string \<Rightarrow> mobile \<Rightarrow> mobile" where
  "mobile_fail status c = mobile_close status c"

text \<open>The telemetry loop of the base class, with the virtual calls of this one.\<close>

definition mobile_telemetry :: "(nat \<Rightarrow> int) \<Rightarrow> bool \<Rightarrow> bool \<Rightarrow> mobile \<Rightarrow> mobile" where
  "mobile_telemetry draws ec1 ec2 c = (case pc c of
       Send msg \<Rightarrow> (let (ec, c') = mobile_send msg ec1 ec2 c in telemetry_step draws ec c')
     | Loop_end \<Rightarrow> telemetry_step draws False
         (if m_count c = m_total_messages c then mobile_close ''connection finished'' c
          else mobile_fail ''connection failed'' c)
     | _ \<Rightarrow> telemetry_step draws False c)"

section \<open>Runs\<close>

inductive mobile_step :: "fp \<Rightarrow> mobile \<Rightarrow> mobile \<Rightarrow> bool" for F where
  primary_opened: "connected c \<Longrightarrow> mobile_step F c (on_open_primary F us hdl exts con c)"
| signaling_opened: "connected c \<Longrightarrow> m_hdl_signaling c \<noteq> None \<Longrightarrow> mobile_step F c (on_open F us c)"
| primary_closed: "mobile_step F c (on_close_primary c)"
| signaling_closed: "mobile_step F c (on_close_signaling c)"
| failed: "connected c \<Longrightarrow> mobile_on_fail get_con c = Inr d \<Longrightarrow> mobile_step F c d"
| echoed: "connected c \<Longrightarrow> mobile_step F c (on_message_either F us c)"
| telemetry: "threads_started c \<Longrightarrow> mobile_step F c (mobile_telemetry draws ec1 ec2 c)"

inductive mobile_reach :: "fp \<Rightarrow> mobile \<Rightarrow> mobile \<Rightarrow> bool" for F where
  start: "mobile_reach F c c"
| step: "mobile_reach F c d \<Longrightarrow> mobile_step F d e \<Longrightarrow> mobile_reach F c e"

section \<open>Identifiers\<close>

text \<open>
  \<open>generate_client_id\<close>: sixteen bytes of two draws of a 64-bit generator; byte \<open>j\<close> of a draw is
  the draw shifted right by four bits per byte. The bytes are returned before their encoding.
\<close>

definition id_byte :: "64 word \<Rightarrow> nat \<Rightarrow> 64 word" where
  "id_byte val j = drop_bit (4 * j) val AND 0xFF"

definition generate_client_id :: "64 word \<Rightarrow> 64 word \<Rightarrow> 64 word list" where
  "generate_client_id v0 v1 = concat (map (\<lambda>val. map (id_byte val) [0..<8]) [v0, v1])"

section \<open>The program\<close>

text \<open>It runs one client and joins its threads.\<close>

definition plain_main :: "nat option \<Rightarrow> (fault + unit) \<times> mobile" where
  "plain_main con =
     (let c = mobile_run ''ws://ec2-54-211-126-143.compute-1.amazonaws.com:9002'' con
        (mobile_signaling_client [] 5 True 1 256)
      in (client_wait c, c))"

end
