(* ===== verification/Machines.thy ===== *)
theory Machines
  imports Prelude
begin

text \<open>
  Step relations. The event-driven parts of the programs (the threads of a client, the handlers
  that run from an \<open>io_service\<close>, the objects of the C++ binding) are modelled as relations between
  states; a run is a sequence of steps. The locales state what an invariant, a ranking and a
  simulation promise of a relation, and prove once what follows for its runs.
\<close>

section \<open>Invariants\<close>

locale invariant =
  fixes step :: "'s \<Rightarrow> 's \<Rightarrow> bool" and inv :: "'s \<Rightarrow> bool"
  assumes keep: "inv s \<Longrightarrow> step s t \<Longrightarrow> inv t"
begin

lemma always: "step\<^sup>*\<^sup>* s t \<Longrightarrow> inv s \<Longrightarrow> inv t"
  by (induction rule: rtranclp_induct) (auto intro: keep)

text \<open>A relation between a state and its successors that every step keeps holds of every run.\<close>

lemma always_related:
  assumes "step\<^sup>*\<^sup>* s t" "inv s" "R s"
    and "\<And>u v. inv u \<Longrightarrow> step u v \<Longrightarrow> R u \<Longrightarrow> R v"
  shows "R t"
  using assms(1)
proof (induction rule: rtranclp_induct)
  case (step u v)
  then show ?case using always[OF step(1) assms(2)] assms(4) by blast
qed (rule assms(3))

end

section \<open>Runs that end\<close>

text \<open>Each step spends one unit of a rank: a run from a state is no longer than its rank.\<close>

locale ranking =
  fixes step :: "'s \<Rightarrow> 's \<Rightarrow> bool" and rank :: "'s \<Rightarrow> nat"
  assumes spend: "step s t \<Longrightarrow> rank t < rank s"
begin

lemma bounded: "(step ^^ n) s t \<Longrightarrow> n + rank t \<le> rank s"
proof (induction n arbitrary: t)
  case (Suc n)
  then obtain u where "(step ^^ n) s u" "step u t" by auto
  with Suc.IH[of u] spend[of u t] show ?case by linarith
qed simp

lemma terminates: "wfP (step\<inverse>\<inverse>)"
  by (rule wfp_if_convertible_to_nat[of _ rank]) (auto intro: spend)

end

section \<open>Simulations\<close>

text \<open>
  Every step of the concrete relation is matched by steps of the abstract one, under an invariant
  of the concrete one.
\<close>

locale simulation = invariant step inv
  for step :: "'s \<Rightarrow> 's \<Rightarrow> bool" and inv :: "'s \<Rightarrow> bool" +
  fixes abs_step :: "'a \<Rightarrow> 'a \<Rightarrow> bool" and abs :: "'s \<Rightarrow> 'a"
  assumes follow: "inv s \<Longrightarrow> step s t \<Longrightarrow> abs_step\<^sup>*\<^sup>* (abs s) (abs t)"
begin

lemma simulates: "step\<^sup>*\<^sup>* s t \<Longrightarrow> inv s \<Longrightarrow> abs_step\<^sup>*\<^sup>* (abs s) (abs t)"
proof (induction rule: rtranclp_induct)
  case (step u v)
  then show ?case using follow[of u v] always[of s u] by (meson rtranclp_trans)
qed simp

text \<open>What the abstract machine keeps, the concrete one has.\<close>

lemma inherits:
  assumes "step\<^sup>*\<^sup>* s t" "inv s" "invariant abs_step J" "J (abs s)"
  shows "J (abs t)"
  using invariant.always[OF assms(3) simulates[OF assms(1,2)] assms(4)] .

end

end
