(* ===== verification/Client_Views.thy ===== *)
theory Client_Views
  imports Base_Client_Props Machines
begin

text \<open>
  The clients that extend the base client, seen through the state of the base class: the
  operations of the base class commute with the view, so each of them is a step of the base
  client.
\<close>

section \<open>The state of the base class\<close>

definition base_of :: "'m client_scheme \<Rightarrow> client" where
  "base_of c = client.truncate c"

lemma base_of_simps [simp]:
  "m_open (base_of c) = m_open c" "m_done (base_of c) = m_done c" "m_finite_messages (base_of c) = m_finite_messages c"
  "m_total_messages (base_of c) = m_total_messages c" "m_count (base_of c) = m_count c"
  "m_message_pending (base_of c) = m_message_pending c" "m_message_length (base_of c) = m_message_length c"
  "m_failed (base_of c) = m_failed c" "m_stats (base_of c) = m_stats c" "m_setupTime (base_of c) = m_setupTime c"
  "client.connected (base_of c) = client.connected c" "threads_started (base_of c) = threads_started c"
  "pc (base_of c) = pc c" "history (base_of c) = history c" "log_file (base_of c) = log_file c"
  by (simp_all add: base_of_def client.truncate_def)

lemma base_of_updates [simp]:
  "base_of (c\<lparr>m_open := x0\<rparr>) = (base_of c)\<lparr>m_open := x0\<rparr>"
  "base_of (c\<lparr>m_done := x1\<rparr>) = (base_of c)\<lparr>m_done := x1\<rparr>"
  "base_of (c\<lparr>m_count := x2\<rparr>) = (base_of c)\<lparr>m_count := x2\<rparr>"
  "base_of (c\<lparr>m_message_pending := x3\<rparr>) = (base_of c)\<lparr>m_message_pending := x3\<rparr>"
  "base_of (c\<lparr>m_failed := x4\<rparr>) = (base_of c)\<lparr>m_failed := x4\<rparr>"
  "base_of (c\<lparr>m_stats := x5\<rparr>) = (base_of c)\<lparr>m_stats := x5\<rparr>"
  "base_of (c\<lparr>m_setupTime := x6\<rparr>) = (base_of c)\<lparr>m_setupTime := x6\<rparr>"
  "base_of (c\<lparr>pc := x7\<rparr>) = (base_of c)\<lparr>pc := x7\<rparr>"
  "base_of (c\<lparr>history := x8\<rparr>) = (base_of c)\<lparr>history := x8\<rparr>"
  by (simp_all add: base_of_def client.truncate_def)

lemma base_of_handlers:
  "base_of (on_close c) = on_close (base_of c)"
  "base_of (on_open F us c) = on_open F us (base_of c)"
  "base_of (on_fail c) = on_fail (base_of c)"
  "base_of (on_message F us c) = on_message F us (base_of c)"
  by (simp_all add: handler_defs)

lemma base_of_loop: "base_of (telemetry_step draws ec c) = telemetry_step draws ec (base_of c)"
  by (cases "pc c") (simp_all add: telemetry_step_def)

section \<open>Runs of the base client\<close>

lemma client_reach_rtranclp: "client_reach F c d = (client_step F)\<^sup>*\<^sup>* c d"
proof
  show "client_reach F c d \<Longrightarrow> (client_step F)\<^sup>*\<^sup>* c d"
    by (induction rule: client_reach.induct) (auto intro: rtranclp.rtrancl_into_rtrancl)
  show "(client_step F)\<^sup>*\<^sup>* c d \<Longrightarrow> client_reach F c d"
    by (induction rule: rtranclp_induct) (auto intro: client_reach.intros)
qed

interpretation base_client: invariant "client_step F" client_inv for F
  by unfold_locales (rule client_inv_step)

end
