(* ===== verification/Mobile_Props.thy ===== *)
theory Mobile_Props
  imports Mobile_Client Client_Views
begin

text \<open>
  The mobile client refines the base client: seen through the state of the base class, each of
  its steps is a step of the base client or none, so the invariants of the base client hold of
  it. What differs is what it never notices: that a connection closes, or was never made.
\<close>

section \<open>The base client inside\<close>

text \<open>The operations of the mobile client that leave the state of the base class alone.\<close>

lemma base_of_mobile:
  "base_of (c\<lparr>m_hdl_primary := x\<rparr>) = base_of c"
  "base_of (connect_signaling uri ident con c) = base_of c"
  "base_of (mobile_close status c) = base_of c"
  "base_of (snd (mobile_send msg ec1 ec2 c)) = base_of c"
  by (simp_all add: base_of_def client.truncate_def connect_signaling_def mobile_close_def mobile_send_def
      split: option.split)

lemma base_of_open_primary: "base_of (on_open_primary F us hdl exts con c) = on_open F us (base_of c)"
  by (simp add: on_open_primary_def base_of_mobile base_of_handlers)

lemma base_of_telemetry:
  "base_of (mobile_telemetry draws ec1 ec2 c)
     = telemetry_step draws (case pc c of Send msg \<Rightarrow> ec1 \<and> ec2 | _ \<Rightarrow> False) (base_of c)"
proof (cases "pc c")
  case (Send msg)
  have "fst (mobile_send msg ec1 ec2 c) = (ec1 \<and> ec2)" by (simp add: mobile_send_def)
  with Send show ?thesis
    by (simp add: mobile_telemetry_def split_def Let_def base_of_loop base_of_mobile)
qed (simp_all add: mobile_telemetry_def base_of_loop base_of_mobile mobile_fail_def)

lemma mobile_step_base: "mobile_step F c d \<Longrightarrow> base_of d = base_of c \<or> client_step F (base_of c) (base_of d)"
proof (induction rule: mobile_step.induct)
  case (primary_opened c us hdl exts con)
  then show ?case using client_step.opened[of "base_of c"] by (simp add: base_of_open_primary)
next
  case (signaling_opened c us)
  then show ?case using client_step.opened[of "base_of c"] by (simp add: base_of_handlers)
next
  case (failed c get_con d)
  then show ?case
    using client_step.failed[of "base_of c" F]
    by (auto simp: mobile_on_fail_def base_of_handlers split: option.splits if_splits)
next
  case (echoed c us)
  then show ?case using client_step.echoed[of "base_of c"] by (simp add: on_message_either_def base_of_handlers)
next
  case (telemetry c draws ec1 ec2)
  then show ?case using client_step.telemetry[of "base_of c"] by (simp add: base_of_telemetry)
qed (simp_all add: on_close_primary_def on_close_signaling_def)

interpretation mobile: simulation "mobile_step F" "\<lambda>_. True" "client_step F" base_of for F
  by unfold_locales (auto dest!: mobile_step_base intro: r_into_rtranclp)

lemma mobile_reach_rtranclp: "mobile_reach F c d \<Longrightarrow> (mobile_step F)\<^sup>*\<^sup>* c d"
  by (induction rule: mobile_reach.induct) (auto intro: rtranclp.rtrancl_into_rtrancl)

lemma mobile_reach_base: "mobile_reach F c d \<Longrightarrow> client_reach F (base_of c) (base_of d)"
  using mobile.simulates[OF mobile_reach_rtranclp] by (simp add: client_reach_rtranclp)

definition mobile_start :: "string \<Rightarrow> int \<Rightarrow> bool \<Rightarrow> int \<Rightarrow> int \<Rightarrow> nat option \<Rightarrow> mobile" where
  "mobile_start ident msgs rand ival len con = mobile_run [] con (mobile_signaling_client ident msgs rand ival len)"

lemma base_of_start:
  "base_of (mobile_start ident msgs rand ival len (Some hdl)) = started_client ident msgs rand ival len"
  by (simp add: base_of_def mobile_start_def mobile_run_def connect_primary_def mobile_signaling_client_def
      client.truncate_def client.extend_def base_client_def started_client_def client_run_def)


section \<open>What the mobile client never notices\<close>

lemma mobile_done_inv:
  "mobile_step F c d \<Longrightarrow> Closed_by_peer \<notin> set (history c) \<Longrightarrow> Closed_by_peer \<notin> set (history d)"
  by (induction rule: mobile_step.induct)
    (auto simp: on_open_primary_def connect_signaling_def on_close_primary_def on_close_signaling_def handler_defs
      mobile_on_fail_def on_message_either_def mobile_telemetry_def telemetry_step_def mobile_send_def
      mobile_close_def mobile_fail_def split: option.splits if_splits region.splits)

lemma mobile_done_reach:
  "mobile_reach F c d \<Longrightarrow> Closed_by_peer \<notin> set (history c) \<Longrightarrow> Closed_by_peer \<notin> set (history d)"
  by (induction rule: mobile_reach.induct) (auto dest: mobile_done_inv)

text \<open>Every send of the endpoint refused, and the loop of such a client.\<close>

definition unheard :: "mobile \<Rightarrow> mobile \<Rightarrow> bool" where
  "unheard c d \<longleftrightarrow> m_open d \<and> m_finite_messages d \<and> \<not> m_done d \<and> \<not> m_failed d \<and> \<not> m_message_pending d \<and> pc d = Loop_head
     \<and> m_total_messages d = m_total_messages c \<and> m_count d \<le> m_total_messages d \<and> threads_started d
     \<and> count_of is_accepted (history d) = 0"

definition refused_round :: "mobile \<Rightarrow> mobile" where
  "refused_round d = ((mobile_telemetry (\<lambda>_. 32) True True) ^^ 5) d"

lemma telemetry_threads: "threads_started (telemetry_step draws ec c) = threads_started c"
  by (simp add: telemetry_step_def split: region.split)

lemma mobile_telemetry_threads: "threads_started (mobile_telemetry draws ec1 ec2 c) = threads_started c"
  by (cases "pc c")
    (simp_all add: mobile_telemetry_def telemetry_threads mobile_send_def mobile_close_def mobile_fail_def)

lemma mobile_reach_round:
  assumes "mobile_reach F c d" "threads_started d"
  shows "mobile_reach F c (((mobile_telemetry draws ec1 ec2) ^^ n) d) \<and> threads_started (((mobile_telemetry draws ec1 ec2) ^^ n) d)"
proof (induction n)
  case (Suc n)
  let ?d = "((mobile_telemetry draws ec1 ec2) ^^ n) d"
  have "threads_started (mobile_telemetry draws ec1 ec2 ?d) = threads_started ?d" by (rule mobile_telemetry_threads)
  with Suc show ?case by (auto intro: mobile_reach.step mobile_step.telemetry)
qed (use assms in simp)

lemma refused_round_state:
  assumes "unheard c d" "m_count d < m_total_messages d"
  shows "unheard c (refused_round d) \<and> m_count (refused_round d) = m_count d + 1"
proof -
  have steps: "refused_round d = mobile_telemetry (\<lambda>_. 32) True True (mobile_telemetry (\<lambda>_. 32) True True
    (mobile_telemetry (\<lambda>_. 32) True True (mobile_telemetry (\<lambda>_. 32) True True (mobile_telemetry (\<lambda>_. 32) True True d))))"
    by (simp add: refused_round_def numeral_eq_Suc)
  show ?thesis
    using assms unfolding unheard_def steps
    by (simp add: mobile_telemetry_def telemetry_step_def mobile_send_def)
qed

lemma unheard_finishes:
  assumes "mobile_reach F c d" "unheard c d"
  shows "\<exists>e. mobile_reach F c e \<and> pc e = Stopped \<and> m_count e = m_total_messages c
    \<and> count_of is_accepted (history e) = 0 \<and> \<not> m_failed e \<and> Close_called ''connection finished'' \<in> set (history e)"
  using assms
proof (induction "nat (m_total_messages d - m_count d)" arbitrary: d rule: less_induct)
  case less
  have t: "threads_started d" using less.prems(2) by (simp add: unheard_def)
  show ?case
  proof (cases "m_count d < m_total_messages d")
    case True
    note r = refused_round_state[OF less.prems(2) True]
    have tot: "m_total_messages (refused_round d) = m_total_messages d"
      using r less.prems(2) by (simp add: unheard_def)
    have "mobile_reach F c (refused_round d)"
      using mobile_reach_round[OF less.prems(1) t] by (simp add: refused_round_def)
    with less.hyps[of "refused_round d"] r tot True show ?thesis by simp
  next
    case False
    let ?e = "mobile_telemetry (\<lambda>_. 32) True True (mobile_telemetry (\<lambda>_. 32) True True d)"
    have "mobile_reach F c ?e"
      using mobile_reach_round[OF less.prems(1) t, where n = 2 and draws = "\<lambda>_. 32" and ?ec1.0 = True and ?ec2.0 = True] by (simp add: numeral_2_eq_2)
    with False less.prems(2) show ?thesis
      by (intro exI[of _ ?e]) (simp add: unheard_def mobile_telemetry_def telemetry_step_def mobile_close_def)
  qed
qed

text \<open>
  C23: a mobile client can finish without having been heard. Its close handlers do nothing, so no
  run ever registers that a connection was closed; and when the endpoint refuses every send on
  both connections, the client counts each refused message as sent, closes its connections as
  finished and calls itself a success, although not a single message was accepted.
\<close>

theorem mobile_finishes_unheard:
  assumes "0 \<le> msgs"
  shows "(\<forall>c. mobile_reach F (mobile_start ident msgs rand ival len (Some hdl)) c \<longrightarrow> m_done c
            \<longrightarrow> Connection_failed \<in> set (history c))
    \<and> (\<exists>c. mobile_reach F (mobile_start ident msgs rand ival len (Some hdl)) c \<and> pc c = Stopped
          \<and> m_count c = msgs \<and> count_of is_accepted (history c) = 0
          \<and> Close_called ''connection finished'' \<in> set (history c) \<and> stats_type c = ''success'')"
proof
  let ?s = "mobile_start ident msgs rand ival len (Some hdl)"
  show "\<forall>c. mobile_reach F ?s c \<longrightarrow> m_done c \<longrightarrow> Connection_failed \<in> set (history c)"
  proof (intro allI impI)
    fix c assume r: "mobile_reach F ?s c" and d: "m_done c"
    have "history ?s = []"
      by (simp add: mobile_start_def mobile_run_def connect_primary_def mobile_signaling_client_def client.extend_def base_client_def)
    then have "Closed_by_peer \<notin> set (history c)" using mobile_done_reach[OF r] by simp
    moreover have "flags_inv (base_of c)"
      using client_inv_reach[OF mobile_reach_base[OF r]] client_inv_start[OF assms]
      by (simp add: base_of_start client_inv_def)
    ultimately show "Connection_failed \<in> set (history c)"
      using d by (auto simp: flags_inv_def ends_connection_def)
  qed
  let ?o = "on_open_primary F 1 hdl [] None ?s"
  have start: "client.connected ?s" "threads_started ?s"
    by (simp_all add: mobile_start_def mobile_run_def connect_primary_def)
  have "mobile_reach F ?s ?o"
    using mobile_reach.step[OF mobile_reach.start mobile_step.primary_opened[OF start(1)]] .
  moreover have "unheard ?s ?o" "m_total_messages ?s = msgs"
    using assms
    by (simp_all add: unheard_def on_open_primary_def connect_signaling_def on_open_def mobile_start_def mobile_run_def
        connect_primary_def mobile_signaling_client_def client.extend_def base_client_def)
  ultimately show "\<exists>c. mobile_reach F ?s c \<and> pc c = Stopped \<and> m_count c = msgs \<and> count_of is_accepted (history c) = 0
      \<and> Close_called ''connection finished'' \<in> set (history c) \<and> stats_type c = ''success''"
    using unheard_finishes[of F ?s ?o] by (auto simp: stats_type_def)
qed

lemma refused_inv:
  assumes "mobile_step F c d" "\<not> client.connected c" "\<not> m_open c" "\<not> m_done c" "m_count c < m_total_messages c"
    "pc c = Loop_head \<or> pc c = Check"
  shows "\<not> client.connected d \<and> \<not> m_open d \<and> \<not> m_done d \<and> m_count d < m_total_messages d \<and> (pc d = Loop_head \<or> pc d = Check)"
  using assms
  by (induction rule: mobile_step.induct)
    (auto simp: on_close_primary_def on_close_signaling_def mobile_telemetry_def telemetry_step_def)

text \<open>
  C24: a mobile client whose URI the endpoint refuses never ends. Unlike the base client it starts
  its threads all the same; no connection exists that could open, close or fail, so in every
  reachable state the telemetry thread is still waiting for the connection to open, and the
  program that joins it hangs.
\<close>

theorem mobile_refused_never_ends:
  assumes "mobile_reach F (mobile_start ident msgs rand ival len None) c" "0 < msgs"
  shows "(pc c = Loop_head \<or> pc c = Check) \<and> \<not> m_open c \<and> \<not> m_done c \<and> client_wait (mobile_start ident msgs rand ival len None) = Inr ()"
proof -
  have "\<not> client.connected c \<and> \<not> m_open c \<and> \<not> m_done c \<and> m_count c < m_total_messages c \<and> (pc c = Loop_head \<or> pc c = Check)"
    using assms(1)
  proof (induction "mobile_start ident msgs rand ival len None" c rule: mobile_reach.induct)
    case start
    then show ?case
      using assms(2) by (simp add: mobile_start_def mobile_run_def connect_primary_def mobile_signaling_client_def
          client.extend_def base_client_def)
  next
    case (step d e)
    then show ?case using refused_inv by blast
  qed
  then show ?thesis by (simp add: client_wait_def mobile_start_def mobile_run_def)
qed

section \<open>The fallback between the connections\<close>

text \<open>
  The channel log read back: the second connection is tried directly after the first has refused
  the same message, and never otherwise; and what the tries came to.
\<close>

fun fallback_ok :: "channel_event list \<Rightarrow> bool" where
  "fallback_ok (Tried Primary m True # Tried Signaling m' ec # r) \<longleftrightarrow> m = m' \<and> fallback_ok r"
| "fallback_ok (Tried Primary m True # r) \<longleftrightarrow> False"
| "fallback_ok (Tried Signaling m ec # r) \<longleftrightarrow> False"
| "fallback_ok (e # r) \<longleftrightarrow> fallback_ok r"
| "fallback_ok [] \<longleftrightarrow> True"

fun came_to :: "channel_event \<Rightarrow> (string \<times> bool) list" where
  "came_to (Tried Primary m True) = []"
| "came_to (Tried l m ec) = [(m, ec)]"
| "came_to _ = []"

fun as_sent :: "client_event \<Rightarrow> (string \<times> bool) list" where
  "as_sent (Sent m ec) = [(m, ec)]"
| "as_sent _ = []"

lemma fallback_ok_append: "fallback_ok xs \<Longrightarrow> fallback_ok (xs @ ys) = fallback_ok ys"
  by (induction xs rule: fallback_ok.induct) auto

definition fallback_inv :: "mobile \<Rightarrow> bool" where
  "fallback_inv c \<longleftrightarrow> fallback_ok (channels c)
     \<and> concat (map came_to (channels c)) = concat (map as_sent (history c))"

lemma fallback_inv_telemetry: "fallback_inv c \<Longrightarrow> fallback_inv (mobile_telemetry draws ec1 ec2 c)"
  by (cases "pc c"; cases ec1)
    (auto simp: fallback_inv_def mobile_telemetry_def telemetry_step_def mobile_send_def mobile_close_def
      mobile_fail_def fallback_ok_append)

lemma fallback_inv_step: "mobile_step F c d \<Longrightarrow> fallback_inv c \<Longrightarrow> fallback_inv d"
proof (induction rule: mobile_step.induct)
  case (telemetry c draws ec1 ec2)
  then show ?case by (simp add: fallback_inv_telemetry)
qed (auto simp: fallback_inv_def on_open_primary_def connect_signaling_def on_close_primary_def
    on_close_signaling_def handler_defs mobile_on_fail_def on_message_either_def split: option.splits if_splits)

text \<open>
  C25: the fallback of the mobile client. In every reachable state, the signaling connection has
  been tried exactly for the messages that the primary connection refused, directly after it
  and with the same message, and what the telemetry loop was told about each message is what
  the last connection tried said.
\<close>

theorem mobile_fallback:
  assumes "mobile_reach F (mobile_start ident msgs rand ival len con) c"
  shows "fallback_ok (channels c) \<and> concat (map came_to (channels c)) = concat (map as_sent (history c))"
proof -
  have "fallback_inv c"
    using assms
  proof (induction "mobile_start ident msgs rand ival len con" c rule: mobile_reach.induct)
    case start
    show ?case
      by (simp add: fallback_inv_def mobile_start_def mobile_run_def connect_primary_def mobile_signaling_client_def
          client.extend_def base_client_def split: option.split)
  qed (auto dest: fallback_inv_step)
  then show ?thesis by (simp add: fallback_inv_def)
qed

section \<open>Identifiers\<close>

lemma id_byte_alt: "id_byte v j = take_bit 8 (drop_bit (4 * j) v)"
proof -
  have "(0xFF :: 64 word) = mask 8" by (simp add: mask_eq_exp_minus_1)
  then show ?thesis by (simp add: id_byte_def take_bit_eq_mask)
qed

text \<open>
  The identifier keeps little of its random draws. Neighbouring bytes share four bits, and two
  draws that agree in their low 36 bits give the same bytes: of the 128 bits drawn, the sixteen
  bytes depend on 72.
\<close>

lemma client_id_wastes_draws:
  "(\<forall>v j. j < 7 \<longrightarrow> drop_bit 4 (id_byte v j) = take_bit 4 (id_byte v (j + 1)))
   \<and> generate_client_id v0 v1 = generate_client_id (take_bit 36 v0) (take_bit 36 v1)"
proof
  show "\<forall>v j. j < 7 \<longrightarrow> drop_bit 4 (id_byte v j) = take_bit 4 (id_byte v (j + 1))"
    by (auto simp: id_byte_alt bit_simps ac_simps intro!: bit_eqI)
  have byte: "id_byte v j = id_byte (take_bit 36 v) j" if "j < 8" for v j
    using that by (auto simp: id_byte_alt bit_simps intro!: bit_eqI)
  have "map (id_byte v) [0..<8] = map (id_byte (take_bit 36 v)) [0..<8]" for v
    by (rule map_cong[OF refl]) (rule byte, simp)
  from this[of v0] this[of v1] show "generate_client_id v0 v1 = generate_client_id (take_bit 36 v0) (take_bit 36 v1)"
    by (simp only: generate_client_id_def list.map)
qed

section \<open>A run\<close>

definition mobile_demo :: mobile where
  "mobile_demo = ((mobile_telemetry (\<lambda>_. 66) True False) ^^ 5)
     (on_open_primary exact_fp 2000 7 [(''mobile-signaling'', [''connection_id'' \<mapsto> ''42''])] (Some 8)
       (mobile_start ''m'' 1 True 1 2 (Some 7)))"

lemma mobile_demo_reach: "mobile_reach exact_fp (mobile_start ''m'' 1 True 1 2 (Some 7)) mobile_demo"
proof -
  let ?s = "mobile_start ''m'' 1 True 1 2 (Some 7)"
  have "client.connected ?s" by (simp add: mobile_start_def mobile_run_def connect_primary_def)
  note 1 = mobile_reach.step[OF mobile_reach.start mobile_step.primary_opened[OF this],
      of exact_fp 2000 7 "[(''mobile-signaling'', [''connection_id'' \<mapsto> ''42''])]" "Some 8"]
  show ?thesis
    unfolding mobile_demo_def
    by (rule conjunct1[OF mobile_reach_round[OF 1]])
      (simp add: on_open_primary_def connect_signaling_def on_open_def mobile_start_def mobile_run_def)
qed

lemma funpow_five: "(f ^^ 5) x = f (f (f (f (f x))))"
  by (simp add: numeral_eq_Suc)

lemma demo_payload: "payload (\<lambda>_. 66) 2 = ''BB''"
  by (simp add: payload_def upt_rec char_of_def bit_0)

lemma mobile_demo_state:
  "channels mobile_demo = [Tried Primary ''BB'' True, Tried Signaling ''BB'' False]"
  "history mobile_demo = [Opened, Sent ''BB'' False]"
  "map q_header (queue mobile_demo) = [''mobile-signaling; connection_id='' @ [CHR 0x22, CHR ''m'', CHR 0x22],
     ''mobile-signaling; connection_id='' @ [CHR 0x22, CHR ''4'', CHR ''2'', CHR 0x22]]"
  by (simp_all add: mobile_demo_def funpow_five mobile_telemetry_def telemetry_step_def mobile_send_def demo_payload
      on_open_primary_def connect_signaling_def on_open_def mobile_start_def mobile_run_def connect_primary_def
      mobile_signaling_client_def client.extend_def base_client_def ext_header_def get_response_connection_id_def)


theorem mobile_finishes_unheard_witness:
  "\<exists>c. mobile_reach exact_fp (mobile_start ''m'' 3 True 1 2 (Some 7)) c \<and> pc c = Stopped
     \<and> m_count c = 3 \<and> count_of is_accepted (history c) = 0 \<and> stats_type c = ''success''"
  using mobile_finishes_unheard[of 3 exact_fp "''m''" True 1 2 7] by auto

theorem mobile_refused_never_ends_witness:
  "(pc (mobile_telemetry (\<lambda>_. 66) True True (mobile_start ''m'' 3 True 1 2 None)) = Loop_head
    \<or> pc (mobile_telemetry (\<lambda>_. 66) True True (mobile_start ''m'' 3 True 1 2 None)) = Check)"
proof -
  have "mobile_reach exact_fp (mobile_start ''m'' 3 True 1 2 None)
      (mobile_telemetry (\<lambda>_. 66) True True (mobile_start ''m'' 3 True 1 2 None))"
    by (rule mobile_reach.step[OF mobile_reach.start mobile_step.telemetry])
      (simp add: mobile_start_def mobile_run_def)
  from mobile_refused_never_ends[OF this] show ?thesis by simp
qed

theorem mobile_fallback_witness:
  "fallback_ok (channels mobile_demo) \<and> concat (map came_to (channels mobile_demo)) = [(''BB'', False)]"
  using mobile_fallback[OF mobile_demo_reach] by (simp add: mobile_demo_state)

lemma client_id_wastes_draws_example:
  "drop_bit 4 (id_byte 0x123 0) = take_bit 4 (id_byte 0x123 1)
   \<and> generate_client_id 0xF000000123 0 = generate_client_id 0x123 0"
proof -
  have "take_bit 36 (0xF000000123 :: 64 word) = 0x123" "take_bit 36 (0 :: 64 word) = 0" by simp_all
  with client_id_wastes_draws[of "0xF000000123" 0] show ?thesis
    by (metis One_nat_def add.left_neutral zero_less_numeral)
qed

end
