(* ===== verification/Ssl_Client.thy ===== *)
theory Ssl_Client
  imports Machines Streams
begin

text \<open>
  The TLS echo client (utils/ssl-client.cpp): a chain of asynchronous operations, each started by
  the handler of the one before. Boost.Asio is a parameter: a step completes the operation that
  is pending, with the error or the data the library reports. A buffer is given to the library as
  a reference, so the model keeps where it points: into the object, or into the frame of the
  handler that started the operation.
\<close>

section \<open>State\<close>

definition client_max_length :: nat where
  "client_max_length = 1024"

datatype buffer = Local_request | Member_reply

datatype client_op =
    Connecting
  | Shaking_hands
  | Writing_request buffer nat
  | Reading_reply buffer nat

text \<open>
  The member \<open>request_\<close> is never used: the handler of the handshake declares a local array of the
  same name. \<open>frame\<close> holds that array while the handler runs. \<open>written\<close> is what the library has
  taken for the peer, \<open>printed\<close> the lines on the standard output, \<open>verdicts\<close> what the verify callback
  returned.
\<close>

record ssl_client =
  op :: "client_op option"
  verify_peer :: bool
  frame :: "bytes option"
  reply :: "char option list"
  written :: bytes
  printed :: "string list"
  verdicts :: "bool list"

definition buffer_live :: "ssl_client \<Rightarrow> buffer \<Rightarrow> bool" where
  "buffer_live c b \<longleftrightarrow> (case b of Local_request \<Rightarrow> frame c \<noteq> None | Member_reply \<Rightarrow> True)"

definition ssl_client_init :: ssl_client where
  "ssl_client_init = \<lparr>op = Some Connecting, verify_peer = True, frame = None,
     reply = replicate client_max_length None, written = [], printed = [], verdicts = []\<rparr>"

text \<open>The callback that verifies a certificate prints its subject and repeats the verdict.\<close>

definition verify_certificate :: "bool \<Rightarrow> string \<Rightarrow> ssl_client \<Rightarrow> bool \<times> ssl_client" where
  "verify_certificate preverified subject_name c =
     (preverified, c\<lparr>printed := printed c @ [''Verifying '' @ subject_name], verdicts := verdicts c @ [preverified]\<rparr>)"

section \<open>Handlers\<close>

text \<open>An error is its message.\<close>

type_synonym asio_error = "string option"

definition say :: "string \<Rightarrow> ssl_client \<Rightarrow> ssl_client" where
  "say line c = c\<lparr>printed := printed c @ [line]\<rparr>"

definition handle_connect :: "asio_error \<Rightarrow> ssl_client \<Rightarrow> ssl_client" where
  "handle_connect error c = (case error of
       None \<Rightarrow> c\<lparr>op := Some Shaking_hands\<rparr>
     | Some message \<Rightarrow> say (''Connect failed: '' @ message) c)"

definition client_handle_handshake :: "asio_error \<Rightarrow> ssl_client \<Rightarrow> ssl_client" where
  "client_handle_handshake error c = (case error of
       None \<Rightarrow>
         (let c1 = c\<lparr>frame := Some ''REQUEST''\<rparr>;
              c2 = c1\<lparr>op := Some (Writing_request Local_request (length ''REQUEST''))\<rparr>
          in c2\<lparr>frame := None\<rparr>)
     | Some message \<Rightarrow> say (''Handshake failed: '' @ message) c)"

definition client_handle_write :: "asio_error \<Rightarrow> nat \<Rightarrow> ssl_client \<Rightarrow> ssl_client" where
  "client_handle_write error bytes_transferred c = (case error of
       None \<Rightarrow> c\<lparr>op := Some (Reading_reply Member_reply bytes_transferred)\<rparr>
     | Some message \<Rightarrow> say (''Write failed: '' @ message) c)"

text \<open>The text of a reply is read from the array; an element nothing has assigned is no character.\<close>

definition read_array :: "char option list \<Rightarrow> nat \<Rightarrow> string option" where
  "read_array a n = (if n \<le> length a \<and> None \<notin> set (take n a) then Some (map the (take n a)) else None)"

definition client_handle_read :: "asio_error \<Rightarrow> nat \<Rightarrow> ssl_client \<Rightarrow> fault + ssl_client" where
  "client_handle_read error bytes_transferred c = (case error of
       None \<Rightarrow> (case read_array (reply c) bytes_transferred of
           None \<Rightarrow> Inl Indeterminate_read
         | Some text \<Rightarrow> Inr (say (''Reply: '' @ text) c))
     | Some message \<Rightarrow> Inr (say (''Read failed: '' @ message) c))"

section \<open>The library\<close>

text \<open>
  \<open>store\<close>: the library puts bytes at the start of an array. A composed write that succeeds has
  transferred the whole buffer; a composed read that succeeds has filled its buffer; one that
  fails has transferred part. What a write takes from a buffer that is no longer there is
  anything. During the handshake the certificates of the peer are shown to the callback, one by
  one; the handshake fails when it rejects one.
\<close>

definition verify_chain :: "(bool \<times> string) list \<Rightarrow> ssl_client \<Rightarrow> ssl_client" where
  "verify_chain certs c = fold (\<lambda>(ok, subject) d. snd (verify_certificate ok subject d)) certs c"

definition store :: "bytes \<Rightarrow> char option list \<Rightarrow> char option list" where
  "store bs a = map Some bs @ drop (length bs) a"

inductive ssl_client_step :: "ssl_client \<Rightarrow> ssl_client \<Rightarrow> bool" where
  connected: "op c = Some Connecting \<Longrightarrow> ssl_client_step c (handle_connect e (c\<lparr>op := None\<rparr>))"
| shaken: "op c = Some Shaking_hands \<Longrightarrow> (\<exists>(ok, subject)\<in>set certs. \<not> ok) \<longrightarrow> e \<noteq> None
    \<Longrightarrow> ssl_client_step c (client_handle_handshake e (verify_chain certs (c\<lparr>op := None\<rparr>)))"
| wrote: "op c = Some (Writing_request b n) \<Longrightarrow> length bs = (case e of None \<Rightarrow> n | Some _ \<Rightarrow> k) \<Longrightarrow> k \<le> n
    \<Longrightarrow> (buffer_live c b \<Longrightarrow> b = Local_request \<Longrightarrow> bs = take (length bs) (the (frame c)))
    \<Longrightarrow> ssl_client_step c (client_handle_write e (length bs) (c\<lparr>op := None, written := written c @ bs\<rparr>))"
| read: "op c = Some (Reading_reply b n) \<Longrightarrow> length bs = (case e of None \<Rightarrow> n | Some _ \<Rightarrow> k) \<Longrightarrow> k \<le> n
    \<Longrightarrow> client_handle_read e (length bs) (c\<lparr>op := None, reply := store bs (reply c)\<rparr>) = Inr d
    \<Longrightarrow> ssl_client_step c d"

inductive_cases ssl_client_stepE: "ssl_client_step c d"

section \<open>The program\<close>

text \<open>
  The program's exit code and output, given what setting up the resolver, the context and the
  connection throws, and the output of the client that ran.
\<close>

definition ssl_client_main :: "string list \<Rightarrow> string option \<Rightarrow> string list \<Rightarrow> string list \<times> int" where
  "ssl_client_main argv exception client_output =
     (if length argv \<noteq> 3 then ([''Usage: client <host> <port>''], 1)
      else case exception of
          Some what \<Rightarrow> (client_output @ [''Exception: '' @ what], 0)
        | None \<Rightarrow> (client_output, 0))"

section \<open>Every run is short\<close>

lemma verify_chain_simps [simp]:
  "op (verify_chain certs c) = op c" "verify_peer (verify_chain certs c) = verify_peer c"
  "frame (verify_chain certs c) = frame c" "reply (verify_chain certs c) = reply c"
  "written (verify_chain certs c) = written c"
  "printed (verify_chain certs c) = printed c @ map (\<lambda>(ok, subject). ''Verifying '' @ subject) certs"
  "verdicts (verify_chain certs c) = verdicts c @ map fst certs"
  by (induction certs arbitrary: c) (auto simp: verify_chain_def verify_certificate_def)

text \<open>The operations still to come.\<close>

definition ops_left :: "ssl_client \<Rightarrow> nat" where
  "ops_left c = (case op c of None \<Rightarrow> 0 | Some Connecting \<Rightarrow> 4 | Some Shaking_hands \<Rightarrow> 3
     | Some (Writing_request b n) \<Rightarrow> 2 | Some (Reading_reply b n) \<Rightarrow> 1)"

lemmas client_handler_defs = handle_connect_def client_handle_handshake_def client_handle_write_def
  client_handle_read_def say_def Let_def

interpretation ssl_run: ranking ssl_client_step ops_left
proof
  fix c d assume "ssl_client_step c d"
  then show "ops_left d < ops_left c"
    by (elim ssl_client_stepE) (auto simp: ops_left_def client_handler_defs split: option.splits)
qed

text \<open>
  The invariant: before the end the client has printed only subjects of certificates, at the end
  one more line, which is not one; a write refers to the array of a frame that is gone; a read
  asks for as many bytes as were written, and they fit.
\<close>

definition subject_line :: "string \<Rightarrow> bool" where
  "subject_line l \<longleftrightarrow> take 10 l = ''Verifying ''"

definition ssl_client_inv :: "ssl_client \<Rightarrow> bool" where
  "ssl_client_inv c \<longleftrightarrow> frame c = None \<and> length (reply c) = client_max_length
     \<and> (case op c of
          None \<Rightarrow> \<exists>ls line. printed c = ls @ [line] \<and> list_all subject_line ls \<and> \<not> subject_line line
        | Some _ \<Rightarrow> list_all subject_line (printed c))
     \<and> (case op c of
          Some (Writing_request b n) \<Rightarrow> b = Local_request \<and> n = 7 \<and> written c = [] \<and> list_all id (verdicts c)
        | Some (Reading_reply b n) \<Rightarrow> b = Member_reply \<and> n = 7 \<and> length (written c) = n \<and> list_all id (verdicts c)
        | Some Connecting \<Rightarrow> written c = [] \<and> verdicts c = []
        | Some Shaking_hands \<Rightarrow> written c = [] \<and> verdicts c = []
        | None \<Rightarrow> (written c \<noteq> [] \<longrightarrow> list_all id (verdicts c))
            \<and> (\<forall>text. last (printed c) = ''Reply: '' @ text \<longrightarrow> length (written c) = 7))"

lemma ssl_client_inv_init: "ssl_client_inv ssl_client_init"
  by (simp add: ssl_client_inv_def ssl_client_init_def)

lemma length_store [simp]: "length bs \<le> length a \<Longrightarrow> length (store bs a) = length a"
  by (simp add: store_def)

lemma read_array_store [simp]: "length bs = n \<Longrightarrow> n \<le> length a \<Longrightarrow> read_array (store bs a) n = Some bs"
  by (auto simp: read_array_def store_def comp_def)

lemma subject_line_simps [simp]:
  "subject_line (''Verifying '' @ s)" "\<not> subject_line (CHR ''C'' # s)" "\<not> subject_line (CHR ''H'' # s)"
  "\<not> subject_line (CHR ''W'' # s)" "\<not> subject_line (CHR ''R'' # s)"
  by (simp_all add: subject_line_def)

lemma subject_lines [simp]: "list_all subject_line (map (\<lambda>(ok, subject). ''Verifying '' @ subject) certs)"
  by (auto simp: list_all_iff subject_line_def)

interpretation ssl_client: invariant ssl_client_step ssl_client_inv
proof
  fix c d assume "ssl_client_inv c" "ssl_client_step c d"
  from this(2,1) show "ssl_client_inv d"
  proof cases
    case (connected e)
    with \<open>ssl_client_inv c\<close> show ?thesis
      by (cases e) (auto simp: ssl_client_inv_def handle_connect_def say_def)
  next
    case (shaken certs e)
    with \<open>ssl_client_inv c\<close> show ?thesis
      by (cases e) (auto simp: ssl_client_inv_def client_handle_handshake_def say_def list_all_iff Let_def split_def
          subject_line_def)
  next
    case (wrote b n bs e k)
    with \<open>ssl_client_inv c\<close> show ?thesis
      by (cases e) (auto simp: ssl_client_inv_def client_handle_write_def say_def)
  next
    case (read b n bs e k)
    with \<open>ssl_client_inv c\<close> show ?thesis
      by (cases e) (auto simp: ssl_client_inv_def client_handle_read_def say_def client_max_length_def)
  qed
qed

lemmas ssl_reach_inv = ssl_client.always[OF _ ssl_client_inv_init]

lemma ssl_client_progress:
  assumes "op c = Some a" shows "\<exists>d. ssl_client_step c d"
proof (cases a)
  case Connecting
  then show ?thesis using assms ssl_client_step.connected by blast
next
  case Shaking_hands
  then show ?thesis using assms ssl_client_step.shaken[of c "[]" None] by auto
next
  case (Writing_request b n)
  then show ?thesis using assms ssl_client_step.wrote[where e = "Some []" and bs = "[]" and k = 0] by fastforce
next
  case (Reading_reply b n)
  then show ?thesis
    using assms ssl_client_step.read[where e = "Some []" and bs = "[]" and k = 0]
    by (fastforce simp: client_handle_read_def)
qed

text \<open>The client after a good handshake, and after a write.\<close>

definition client_writing :: ssl_client where
  "client_writing = ssl_client_init\<lparr>op := Some (Writing_request Local_request 7)\<rparr>"

definition client_shaking :: ssl_client where
  "client_shaking = ssl_client_init\<lparr>op := Some Shaking_hands\<rparr>"

definition client_wrote :: "bytes \<Rightarrow> ssl_client" where
  "client_wrote bs = client_writing\<lparr>op := Some (Reading_reply Member_reply 7), written := bs\<rparr>"

lemma client_steps:
  "ssl_client_step ssl_client_init client_shaking"
  "ssl_client_step client_shaking client_writing"
  "length bs = 7 \<Longrightarrow> ssl_client_step client_writing (client_wrote bs)"
proof -
  show "ssl_client_step ssl_client_init client_shaking"
    using ssl_client_step.connected[of ssl_client_init None]
    by (simp add: client_shaking_def ssl_client_init_def handle_connect_def)
  show "ssl_client_step client_shaking client_writing"
    using ssl_client_step.shaken[of client_shaking "[]" None]
    by (simp add: client_shaking_def client_writing_def ssl_client_init_def client_handle_handshake_def
        verify_chain_def eval_nat_numeral)
  show "ssl_client_step client_writing (client_wrote bs)" if "length bs = 7"
    using ssl_client_step.wrote[where c = client_writing and e = None and bs = bs and k = 0] that
    by (simp add: client_writing_def client_wrote_def ssl_client_init_def client_handle_write_def buffer_live_def)
qed

lemma client_writing_reach: "ssl_client_step\<^sup>*\<^sup>* ssl_client_init client_writing"
  using client_steps(1,2) by (meson converse_rtranclp_into_rtranclp rtranclp.rtrancl_refl)

lemma client_wrote_reach: "length bs = 7 \<Longrightarrow> ssl_client_step\<^sup>*\<^sup>* ssl_client_init (client_wrote bs)"
  using client_writing_reach client_steps(3) by (rule rtranclp.rtrancl_into_rtrancl)

text \<open>
  C26: the TLS client ends. No run has more than four completions; as long as an operation is
  pending another step is possible; and a client with none pending has printed, after the
  subjects of the certificates, exactly one line: the reply, or the error that ended it.
\<close>

theorem ssl_client_ends:
  assumes "(ssl_client_step ^^ n) ssl_client_init c"
  shows "n \<le> 4 \<and> (op c \<noteq> None \<longrightarrow> (\<exists>d. ssl_client_step c d))
    \<and> (op c = None \<longleftrightarrow> (\<exists>ls line. printed c = ls @ [line] \<and> list_all subject_line ls \<and> \<not> subject_line line))"
proof (intro conjI impI)
  show "n \<le> 4" using ssl_run.bounded[OF assms] by (simp add: ops_left_def ssl_client_init_def)
  show "\<exists>d. ssl_client_step c d" if "op c \<noteq> None" using that ssl_client_progress by blast
  have "ssl_client_inv c" using assms ssl_reach_inv by (simp add: relpowp_imp_rtranclp)
  then show "op c = None \<longleftrightarrow> (\<exists>ls line. printed c = ls @ [line] \<and> list_all subject_line ls \<and> \<not> subject_line line)"
    by (cases "op c") (auto simp: ssl_client_inv_def)
qed

text \<open>
  C27: the request of the TLS client dangles. Whenever its write is pending, the buffer it was
  given is the local array of a handler that has returned, so nothing ties what the peer gets to
  the request: for any seven bytes there is a run that has written them.
\<close>

theorem ssl_request_dangles:
  "(\<forall>c b n. ssl_client_step\<^sup>*\<^sup>* ssl_client_init c \<longrightarrow> op c = Some (Writing_request b n) \<longrightarrow> \<not> buffer_live c b)
   \<and> (\<forall>bs. length bs = 7 \<longrightarrow> (\<exists>c. ssl_client_step\<^sup>*\<^sup>* ssl_client_init c \<and> written c = bs))"
proof (intro conjI allI impI)
  show "\<not> buffer_live c b" if "ssl_client_step\<^sup>*\<^sup>* ssl_client_init c" "op c = Some (Writing_request b n)" for c b n
    using ssl_reach_inv[OF that(1)] that(2) by (auto simp: ssl_client_inv_def buffer_live_def)
  show "\<exists>c. ssl_client_step\<^sup>*\<^sup>* ssl_client_init c \<and> written c = bs" if "length bs = 7" for bs
    using client_wrote_reach[OF that] by (intro exI[of _ "client_wrote bs"]) (simp add: client_wrote_def)
qed

text \<open>
  C28: the TLS client trusts and reads what it should. It has written only when the callback
  accepted every certificate it was shown; the read of the reply asks for as many bytes as were
  written, they fit into the array of the object, and the line printed is the reply itself.
\<close>

theorem ssl_client_reads_reply:
  assumes "ssl_client_step\<^sup>*\<^sup>* ssl_client_init c"
  shows "(written c \<noteq> [] \<longrightarrow> list_all id (verdicts c))
    \<and> (\<forall>b n bs. op c = Some (Reading_reply b n) \<longrightarrow> length bs = n \<longrightarrow>
        n = length (written c) \<and> n \<le> length (reply c)
        \<and> (\<exists>d. client_handle_read None n (c\<lparr>op := None, reply := store bs (reply c)\<rparr>) = Inr d
              \<and> last (printed d) = ''Reply: '' @ bs))"
proof (intro conjI allI impI)
  have inv: "ssl_client_inv c" using assms by (rule ssl_reach_inv)
  then show "list_all id (verdicts c)" if "written c \<noteq> []"
    using that by (cases "op c") (auto simp: ssl_client_inv_def split: client_op.splits)
  fix b n and bs :: bytes assume op: "op c = Some (Reading_reply b n)" "length bs = n"
  from inv op(1) show n: "n = length (written c)" and fits: "n \<le> length (reply c)"
    by (auto simp: ssl_client_inv_def client_max_length_def)
  with op(2) have "read_array (store bs (reply c)) n = Some bs" by auto
  then show "\<exists>d. client_handle_read None n (c\<lparr>op := None, reply := store bs (reply c)\<rparr>) = Inr d
      \<and> last (printed d) = ''Reply: '' @ bs"
    by (simp add: client_handle_read_def say_def)
qed

theorem ssl_client_ends_witness:
  "op client_writing \<noteq> None \<and> (\<exists>d. ssl_client_step client_writing d)"
proof -
  obtain n where n: "(ssl_client_step ^^ n) ssl_client_init client_writing"
    using client_writing_reach rtranclp_imp_relpowp by fast
  have "op client_writing \<noteq> None" by (simp add: client_writing_def)
  then show ?thesis using conjunct1[OF conjunct2[OF ssl_client_ends[OF n]]] by simp
qed

theorem ssl_request_dangles_witness:
  "\<not> buffer_live client_writing Local_request
   \<and> (\<exists>c. ssl_client_step\<^sup>*\<^sup>* ssl_client_init c \<and> written c = ''garbage'')"
  using ssl_request_dangles client_writing_reach by (auto simp: client_writing_def)

theorem ssl_client_reads_reply_witness:
  "list_all id (verdicts (client_wrote ''REQUEST''))"
proof -
  have "length ''REQUEST'' = 7" by simp
  moreover have "written (client_wrote ''REQUEST'') \<noteq> []" by (simp add: client_wrote_def)
  ultimately show ?thesis using conjunct1[OF ssl_client_reads_reply[OF client_wrote_reach]] by blast
qed

end
