(* ===== verification/Ssl_Server.thy ===== *)
theory Ssl_Server
  imports Ssl_Client "HOL-Library.Word" "HOL-Library.Sublist"
begin

text \<open>
  The TLS echo server (utils/ssl-server.cpp): one session object per connection, made before the
  connection is accepted and deleted by its own handlers, and a server that accepts for ever.
  Sessions live in a heap; a handler that runs on a deleted one is a fault. Boost.Asio is a
  parameter: it completes any pending operation, in any order, with an error or with data.
\<close>

unbundle bit_operations_syntax

section \<open>State\<close>

definition session_max_length :: nat where
  "session_max_length = 1024"

text \<open>\<open>taken\<close> and \<open>given\<close> are what the library has read from and written to the peer.\<close>

record session =
  data :: "char option list"
  taken :: bytes
  given :: "char option list"

datatype server_op =
    Accepting nat
  | Handshaking nat
  | Reading nat nat
  | Writing nat nat

record server =
  sessions :: "nat \<rightharpoonup> session"
  next_session :: nat
  ops :: "server_op list"
  ended :: "(nat \<times> session) list"

definition new_session :: session where
  "new_session = \<lparr>data = replicate session_max_length None, taken = [], given = []\<rparr>"

definition async :: "server_op \<Rightarrow> server \<Rightarrow> server" where
  "async a s = s\<lparr>ops := ops s @ [a]\<rparr>"

text \<open>An access through a pointer to a session, and its deletion.\<close>

definition with_session :: "nat \<Rightarrow> (session \<Rightarrow> server \<Rightarrow> fault + server) \<Rightarrow> server \<Rightarrow> fault + server" where
  "with_session i f s = (case sessions s i of None \<Rightarrow> Inl Use_after_delete | Some x \<Rightarrow> f x s)"

definition delete_session :: "nat \<Rightarrow> server \<Rightarrow> fault + server" where
  "delete_session i = with_session i (\<lambda>x s. Inr (s\<lparr>sessions := (sessions s)(i := None), ended := ended s @ [(i, x)]\<rparr>))"

section \<open>Handlers of a session\<close>

definition session_start :: "nat \<Rightarrow> server \<Rightarrow> fault + server" where
  "session_start i = with_session i (\<lambda>x s. Inr (async (Handshaking i) s))"

definition session_handle_handshake :: "nat \<Rightarrow> bool \<Rightarrow> server \<Rightarrow> fault + server" where
  "session_handle_handshake i error s =
     (if \<not> error then with_session i (\<lambda>x s. Inr (async (Reading i session_max_length) s)) s
      else delete_session i s)"

definition session_handle_read :: "nat \<Rightarrow> bool \<Rightarrow> nat \<Rightarrow> server \<Rightarrow> fault + server" where
  "session_handle_read i error bytes_transferred s =
     (if \<not> error then with_session i (\<lambda>x s. Inr (async (Writing i bytes_transferred) s)) s
      else delete_session i s)"

definition session_handle_write :: "nat \<Rightarrow> bool \<Rightarrow> server \<Rightarrow> fault + server" where
  "session_handle_write i error s =
     (if \<not> error then with_session i (\<lambda>x s. Inr (async (Reading i session_max_length) s)) s
      else delete_session i s)"

section \<open>The server\<close>

definition start_accept :: "server \<Rightarrow> server" where
  "start_accept s = (let i = next_session s in
     async (Accepting i) (s\<lparr>sessions := (sessions s)(i \<mapsto> new_session), next_session := Suc i\<rparr>))"

definition handle_accept :: "nat \<Rightarrow> bool \<Rightarrow> server \<Rightarrow> fault + server" where
  "handle_accept i error s =
     (case (if \<not> error then session_start i s else delete_session i s) of
        Inl f \<Rightarrow> Inl f
      | Inr t \<Rightarrow> Inr (start_accept t))"

definition server_init :: server where
  "server_init = start_accept \<lparr>sessions = Map.empty, next_session = 0, ops = [], ended = []\<rparr>"

section \<open>The library\<close>

text \<open>
  How an operation completes: with an error after some bytes, or without one. A read that
  succeeds has stored at most as many bytes as it was given room for, one that fails none; a
  write that succeeds has transferred all bytes, one that fails less.
\<close>

datatype completion = Failed nat | Succeeded bytes

primrec failed :: "completion \<Rightarrow> bool" where
  "failed (Failed k) = True"
| "failed (Succeeded bs) = False"

primrec allowed :: "server_op \<Rightarrow> completion \<Rightarrow> bool" where
  "allowed (Accepting i) r = True"
| "allowed (Handshaking i) r = True"
| "allowed (Reading i n) r = (case r of Failed k \<Rightarrow> True | Succeeded bs \<Rightarrow> length bs \<le> n)"
| "allowed (Writing i n) r = (case r of Failed k \<Rightarrow> k \<le> n | Succeeded bs \<Rightarrow> True)"

definition receive :: "nat \<Rightarrow> bytes \<Rightarrow> server \<Rightarrow> fault + server" where
  "receive i bs = with_session i (\<lambda>x s. Inr (s\<lparr>sessions := (sessions s)(i \<mapsto>
     x\<lparr>data := store bs (data x), taken := taken x @ bs\<rparr>)\<rparr>))"

definition transmit :: "nat \<Rightarrow> nat \<Rightarrow> server \<Rightarrow> fault + server" where
  "transmit i k = with_session i (\<lambda>x s. Inr (s\<lparr>sessions := (sessions s)(i \<mapsto>
     x\<lparr>given := given x @ take k (data x)\<rparr>)\<rparr>))"

definition and_then :: "fault + 's \<Rightarrow> ('s \<Rightarrow> fault + 't) \<Rightarrow> fault + 't" where
  "and_then r f = (case r of Inl e \<Rightarrow> Inl e | Inr s \<Rightarrow> f s)"

primrec complete :: "server_op \<Rightarrow> completion \<Rightarrow> server \<Rightarrow> fault + server" where
  "complete (Accepting i) r s = handle_accept i (failed r) s"
| "complete (Handshaking i) r s = session_handle_handshake i (failed r) s"
| "complete (Reading i n) r s = (case r of
      Failed k \<Rightarrow> session_handle_read i True 0 s
    | Succeeded bs \<Rightarrow> and_then (receive i bs s) (session_handle_read i False (length bs)))"
| "complete (Writing i n) r s = (case r of
      Failed k \<Rightarrow> and_then (transmit i k s) (session_handle_write i True)
    | Succeeded bs \<Rightarrow> and_then (transmit i n s) (session_handle_write i False))"

inductive server_step :: "server \<Rightarrow> server \<Rightarrow> bool" where
  "ops s = as @ a # bs \<Longrightarrow> allowed a r \<Longrightarrow> complete a r (s\<lparr>ops := as @ bs\<rparr>) = Inr t \<Longrightarrow> server_step s t"

inductive_cases server_stepE: "server_step s t"

section \<open>The invariant\<close>

primrec session_of :: "server_op \<Rightarrow> nat" where
  "session_of (Accepting i) = i"
| "session_of (Handshaking i) = i"
| "session_of (Reading i n) = i"
| "session_of (Writing i n) = i"

primrec accepting :: "server_op \<Rightarrow> bool" where
  "accepting (Accepting i) = True"
| "accepting (Handshaking i) = False"
| "accepting (Reading i n) = False"
| "accepting (Writing i n) = False"

text \<open>What an operation that is pending says of the bytes of its session.\<close>

primrec bytes_ok :: "server_op \<Rightarrow> session \<Rightarrow> bool" where
  "bytes_ok (Accepting i) x = (taken x = [] \<and> given x = [])"
| "bytes_ok (Handshaking i) x = (taken x = [] \<and> given x = [])"
| "bytes_ok (Reading i n) x = (n = session_max_length \<and> given x = map Some (taken x))"
| "bytes_ok (Writing i n) x = (n \<le> session_max_length \<and> given x @ take n (data x) = map Some (taken x))"

definition echoing :: "session \<Rightarrow> bool" where
  "echoing x \<longleftrightarrow> prefix (given x) (map Some (taken x))"

text \<open>
  Every pending operation belongs to its own live session, every live session has one, exactly
  one of them accepts, and sessions are numbered in the order they were made.
\<close>

definition op_ok :: "server \<Rightarrow> server_op \<Rightarrow> bool" where
  "op_ok s a \<longleftrightarrow> (\<exists>x. sessions s (session_of a) = Some x \<and> length (data x) = session_max_length \<and> bytes_ok a x)"

definition heap_inv :: "server \<Rightarrow> bool" where
  "heap_inv s \<longleftrightarrow> distinct (map session_of (ops s)) \<and> dom (sessions s) = session_of ` set (ops s)
     \<and> list_all (op_ok s) (ops s) \<and> (\<forall>i\<in>dom (sessions s). i < next_session s) \<and> list_all (echoing \<circ> snd) (ended s)"

definition server_inv :: "server \<Rightarrow> bool" where
  "server_inv s \<longleftrightarrow> heap_inv s \<and> length (filter accepting (ops s)) = 1"

lemma bytes_ok_echoing: "bytes_ok a x \<Longrightarrow> echoing x"
  by (cases a) (auto simp: echoing_def prefix_def intro: sym)

lemma other_session: "distinct (map f (as @ a # bs)) \<Longrightarrow> b \<in> set (as @ bs) \<Longrightarrow> f b \<noteq> f a"
  by (simp add: image_iff) metis

text \<open>
  An operation of a live session is replaced by another of the same session, with the session
  updated, or removed with its session, or a new session is made; the other sessions and their
  operations stay as they are.
\<close>

lemma heap_inv_others:
  assumes "heap_inv s" "ops s = as @ a # bs" "b \<in> set (as @ bs)"
    and "\<And>i. i \<noteq> session_of a \<Longrightarrow> i < next_session s \<Longrightarrow> sessions t i = sessions s i"
  shows "op_ok t b"
proof -
  from assms(1,2) have "distinct (map session_of (as @ a # bs))" by (simp add: heap_inv_def)
  then have "session_of b \<noteq> session_of a" using assms(3) by (rule other_session)
  moreover have "session_of b < next_session s" "op_ok s b" using assms(1-3) by (auto simp: heap_inv_def list_all_iff)
  ultimately show ?thesis using assms(4) by (simp add: op_ok_def)
qed

lemma heap_inv_replace:
  assumes inv: "heap_inv s" and ops: "ops s = as @ a # bs" and a': "session_of a' = session_of a"
    and x: "length (data x) = session_max_length" "bytes_ok a' x"
    and t: "t = s\<lparr>sessions := (sessions s)(session_of a \<mapsto> x), ops := (as @ bs) @ [a']\<rparr>"
  shows "heap_inv t"
proof -
  have "op_ok t b" if "b \<in> set (as @ bs)" for b
    using heap_inv_others[OF inv ops that] by (simp add: t)
  moreover have "op_ok t a'" using x a' by (auto simp: op_ok_def t)
  moreover have "session_of a \<in> dom (sessions s)" using inv by (auto simp: heap_inv_def ops)
  ultimately show ?thesis
    using inv a' by (auto simp: heap_inv_def list_all_iff ops t split: if_splits)
qed

lemma heap_inv_remove:
  assumes inv: "heap_inv s" and ops: "ops s = as @ a # bs" and x: "echoing x"
    and t: "t = s\<lparr>ops := as @ bs, sessions := (sessions s)(session_of a := None), ended := ended s @ [(session_of a, x)]\<rparr>"
  shows "heap_inv t"
proof -
  have "op_ok t b" if "b \<in> set (as @ bs)" for b
    using heap_inv_others[OF inv ops that] by (simp add: t)
  moreover have "session_of b \<noteq> session_of a" if "b \<in> set (as @ bs)" for b
    using inv that by (intro other_session[of session_of as a bs]) (simp_all add: heap_inv_def ops)
  ultimately show ?thesis
    using inv x by (auto simp: heap_inv_def list_all_iff ops t)
qed

lemma heap_inv_start_accept:
  assumes inv: "heap_inv s" shows "heap_inv (start_accept s)"
proof -
  let ?t = "start_accept s"
  have "session_of b < next_session s" "op_ok s b" if "b \<in> set (ops s)" for b
    using inv that by (auto simp: heap_inv_def list_all_iff)
  then have "op_ok ?t b" if "b \<in> set (ops s)" for b
    using that by (fastforce simp: op_ok_def start_accept_def async_def Let_def)
  moreover have "op_ok ?t (Accepting (next_session s))"
    by (simp add: op_ok_def start_accept_def async_def Let_def new_session_def)
  ultimately show ?thesis
    using inv by (fastforce simp: heap_inv_def start_accept_def async_def Let_def list_all_iff)
qed

text \<open>The session of a pending operation, and what the handlers do on it.\<close>

lemma heap_inv_session:
  assumes "heap_inv s" "ops s = as @ a # bs"
  obtains x where "sessions s (session_of a) = Some x" "length (data x) = session_max_length" "bytes_ok a x"
  using assms by (auto simp: heap_inv_def op_ok_def)

lemmas session_defs = with_session_def async_def delete_session_def session_start_def session_handle_handshake_def
  session_handle_read_def session_handle_write_def receive_def transmit_def and_then_def handle_accept_def

lemma take_prefix_of_echo:
  "k \<le> n \<Longrightarrow> xs @ take n ys = zs \<Longrightarrow> prefix (xs @ take k ys) zs"
  by (metis append_take_drop_id min.absorb1 prefix_append take_is_prefix take_take)

text \<open>The library completes an operation: nothing faults, and the invariant holds again.\<close>

lemma complete_keeps:
  assumes inv: "heap_inv s" and ops: "ops s = as @ a # bs" and ok: "allowed a r"
  shows "\<exists>t. complete a r (s\<lparr>ops := as @ bs\<rparr>) = Inr t \<and> heap_inv t
    \<and> length (filter accepting (ops t)) = length (filter accepting (ops s))"
proof -
  obtain x where x: "sessions s (session_of a) = Some x" "length (data x) = session_max_length" "bytes_ok a x"
    using inv ops by (rule heap_inv_session)
  note replace = heap_inv_replace[OF inv ops _ _ _ refl] and remove = heap_inv_remove[OF inv ops _ refl]
  show ?thesis
  proof (cases a)
    case (Accepting i)
    show ?thesis
    proof (cases "failed r")
      case True
      with x Accepting show ?thesis
        using heap_inv_start_accept[OF remove[of x]] bytes_ok_echoing[OF x(3)] True
        by (simp add: session_defs start_accept_def Let_def ops)
    next
      case False
      with x Accepting show ?thesis
        using heap_inv_start_accept[OF replace[of "Handshaking i" x]]
        by (simp add: session_defs start_accept_def Let_def ops fun_upd_idem)
    qed
  next
    case (Handshaking i)
    with x show ?thesis
      using replace[of "Reading i session_max_length" x] remove[of x] bytes_ok_echoing[OF x(3)]
      by (cases r) (auto simp: session_defs ops fun_upd_idem)
  next
    case (Reading i n)
    show ?thesis
    proof (cases r)
      case (Failed k)
      with x Reading show ?thesis
        using remove[of x] bytes_ok_echoing[OF x(3)] by (simp add: session_defs ops)
    next
      case (Succeeded cs)
      let ?x = "x\<lparr>data := store cs (data x), taken := taken x @ cs\<rparr>"
      from x(2,3) ok Reading Succeeded have "length cs \<le> session_max_length" by simp
      with x Reading Succeeded show ?thesis
        using replace[of "Writing i (length cs)" ?x] by (simp add: session_defs ops store_def)
    qed
  next
    case (Writing i n)
    show ?thesis
    proof (cases r)
      case (Failed k)
      let ?x = "x\<lparr>given := given x @ take k (data x)\<rparr>"
      from x(3) ok Writing Failed have "echoing ?x" by (auto simp: echoing_def dest: take_prefix_of_echo)
      with x Writing Failed show ?thesis
        using remove[of ?x] by (simp add: session_defs ops)
    next
      case (Succeeded cs)
      let ?x = "x\<lparr>given := given x @ take n (data x)\<rparr>"
      from x Writing Succeeded show ?thesis
        using replace[of "Reading i session_max_length" ?x] by (simp add: session_defs ops)
    qed
  qed
qed

interpretation ssl_server: invariant server_step server_inv
proof
  fix s t assume "server_inv s" "server_step s t"
  then show "server_inv t"
    by (elim server_stepE) (metis complete_keeps server_inv_def sum.inject(2))
qed

lemma server_inv_init: "server_inv server_init"
  by (simp add: server_inv_def heap_inv_def server_init_def start_accept_def async_def Let_def op_ok_def new_session_def)

lemmas server_reach_inv = ssl_server.always[OF _ server_inv_init]

section \<open>Starting the server\<close>

text \<open>\<open>atoi\<close> is undefined when the number is not an \<open>int\<close>; the port is an \<open>unsigned short\<close>.\<close>

definition atoi :: "string \<Rightarrow> int option" where
  "atoi s = (let (neg, t) = split_sign (dropWhile is_space s);
                 v = int (value_of (takeWhile is_digit t));
                 i = (if neg then - v else v)
             in if int_range i then Some i else None)"

definition port_of :: "string \<Rightarrow> 16 word option" where
  "port_of arg = map_option word_of_int (atoi arg)"

definition get_password :: string where
  "get_password = ''test''"

text \<open>
  The constants of OpenSSL, one of which may be missing, and what the TLS library answers: which
  calls throw, the modes and the options of the context.
\<close>

record tls_constants =
  op_no_compression :: "64 word"
  default_workarounds :: "64 word"
  no_sslv2 :: "64 word"
  single_dh_use :: "64 word"
  mode_release_buffers :: "64 word option"
  mode_partial_write :: "64 word"

datatype tls_call =
    Set_options "64 word"
  | Set_password_callback string
  | Use_certificate_chain_file string
  | Use_private_key_file string

record tls_library =
  throws :: "tls_call \<Rightarrow> string option"
  get_mode :: "64 word"
  set_mode :: "64 word \<Rightarrow> 64 word"
  get_options :: "64 word"

definition bitset_text :: "64 word \<Rightarrow> string" where
  "bitset_text w = map (\<lambda>i. if bit w i then CHR ''1'' else CHR ''0'') (rev [0..<32])"

definition context_calls :: "tls_constants \<Rightarrow> tls_call list" where
  "context_calls K =
     [Set_options (op_no_compression K OR default_workarounds K OR no_sslv2 K OR single_dh_use K),
      Set_password_callback get_password, Use_certificate_chain_file ''server.pem'',
      Use_private_key_file ''key.pem'']"

definition mode_wanted :: "tls_constants \<Rightarrow> tls_library \<Rightarrow> 64 word option" where
  "mode_wanted K L = (case mode_release_buffers K of
       None \<Rightarrow> None
     | Some b \<Rightarrow> Some (get_mode L OR b OR mode_partial_write K))"

definition cipher_list :: string where
  "cipher_list = ''ECDHE-RSA-AES128-GCM-SHA256:ECDHE-ECDSA-AES128-GCM-SHA256:ECDHE-RSA-AES128-SHA256:'' @
     ''ECDHE-ECDSA-AES128-SHA256:DHE-DSS-AES128-GCM-SHA256:DHE-RSA-AES128-GCM-SHA256:'' @
     ''DHE-RSA-AES128-SHA256:DHE-DSS-AES128-SHA256:ECDH-RSA-AES128-GCM-SHA256:'' @
     ''ECDH-ECDSA-AES128-GCM-SHA256:ECDH-RSA-AES128-SHA256:ECDH-ECDSA-AES128-SHA256:AES128-GCM-SHA256:'' @
     ''AES128-SHA256:ECDHE-RSA-AES128-SHA:ECDHE-ECDSA-AES128-SHA:SRP-DSS-AES-128-CBC-SHA:'' @
     ''SRP-RSA-AES-128-CBC-SHA:DHE-RSA-AES128-SHA:DHE-DSS-AES128-SHA:AECDH-AES128-SHA:'' @
     ''SRP-AES-128-CBC-SHA:ECDH-RSA-AES128-SHA:ECDH-ECDSA-AES128-SHA:AES128-SHA:PSK-AES128-CBC-SHA''"

definition configure :: "tls_constants \<Rightarrow> tls_library \<Rightarrow> string + (string list \<times> string)" where
  "configure K L = (case find (\<lambda>c. throws L c \<noteq> None) (context_calls K) of
       Some c \<Rightarrow> Inl (the (throws L c))
     | None \<Rightarrow> Inr ((case mode_wanted K L of
           None \<Rightarrow> []
         | Some m \<Rightarrow> [''SSL mode: '' @ bitset_text (set_mode L m)])
         @ [''Options: '' @ bitset_text (get_options L) @ '' | '' @ bitset_text (op_no_compression K)], cipher_list))"

text \<open>
  The constructor binds the port, configures the context and starts to accept. The program runs
  until something throws; \<open>listening\<close> says what binding throws.
\<close>

definition server_ctor :: "tls_constants \<Rightarrow> tls_library \<Rightarrow> (16 word \<Rightarrow> string option) \<Rightarrow> 16 word \<Rightarrow> string + (string list \<times> server)" where
  "server_ctor K L listening port = (case listening port of
       Some what \<Rightarrow> Inl what
     | None \<Rightarrow> (case configure K L of Inl what \<Rightarrow> Inl what | Inr (ls, ciphers) \<Rightarrow> Inr (ls, server_init)))"

definition ssl_server_main :: "tls_constants \<Rightarrow> tls_library \<Rightarrow> (16 word \<Rightarrow> string option) \<Rightarrow> (server \<Rightarrow> string option)
    \<Rightarrow> string list \<Rightarrow> (string list \<times> int) option" where
  "ssl_server_main K L listening io_service_run argv =
     (if length argv \<noteq> 2 then Some ([''Usage: server <port>''], 1)
      else case port_of (argv ! 1) of
          None \<Rightarrow> None
        | Some port \<Rightarrow> Some (case server_ctor K L listening port of
              Inl what \<Rightarrow> ([''Exception: '' @ what], 0)
            | Inr (ls, s) \<Rightarrow> (case io_service_run s of
                  None \<Rightarrow> (ls, 0)
                | Some what \<Rightarrow> (ls @ [''Exception: '' @ what], 0))))"

end
