(* ===== verification/Ssl_Props.thy ===== *)
theory Ssl_Props
  imports Ssl_Server
begin

text \<open>
  What the TLS echo programs promise: memory safety and echo of the server, its endless accept
  loop, its numbers on the command line and on the output, and what the client gets back when
  it talks to the server.
\<close>

unbundle bit_operations_syntax

section \<open>Sessions\<close>

text \<open>
  C29: no handler of the TLS server runs on a deleted session. In every reachable state the pending
  operations belong to different sessions, each of them live, and whichever of them the library
  completes, with an error or with data, its handler returns without touching a session that was
  deleted or deleting one twice.
\<close>

theorem server_memory_safe:
  assumes "server_step\<^sup>*\<^sup>* server_init s"
  shows "distinct (map session_of (ops s)) \<and> session_of ` set (ops s) = dom (sessions s)
    \<and> (\<forall>as a bs r. ops s = as @ a # bs \<longrightarrow> allowed a r \<longrightarrow>
        (\<exists>t. complete a r (s\<lparr>ops := as @ bs\<rparr>) = Inr t \<and> server_step s t))"
proof -
  have inv: "heap_inv s" using server_reach_inv[OF assms] by (simp add: server_inv_def)
  moreover have "\<exists>t. complete a r (s\<lparr>ops := as @ bs\<rparr>) = Inr t \<and> server_step s t"
    if "ops s = as @ a # bs" "allowed a r" for as a bs r
    using complete_keeps[OF inv that] server_step.intros[OF that] by blast
  ultimately show ?thesis by (simp add: heap_inv_def)
qed

lemma live_echoes:
  assumes "heap_inv s" "sessions s i = Some x" shows "echoing x"
proof -
  have "i \<in> session_of ` set (ops s)" using assms(1) domI[of "sessions s", OF assms(2)] by (simp add: heap_inv_def)
  then obtain a where "a \<in> set (ops s)" "session_of a = i" by blast
  with assms have "bytes_ok a x" by (auto simp: heap_inv_def list_all_iff op_ok_def)
  then show ?thesis by (rule bytes_ok_echoing)
qed

text \<open>
  C30: the TLS server echoes. What a session has written is, in every reachable state and when it
  ends, a prefix of what it has read, character by character, so it never contains a byte of the
  buffer that nothing has read; and a session that waits for data has given everything back.
\<close>

theorem server_echoes:
  assumes "server_step\<^sup>*\<^sup>* server_init s"
  shows "(\<forall>i x. sessions s i = Some x \<longrightarrow> prefix (given x) (map Some (taken x)))
    \<and> (\<forall>(j, x)\<in>set (ended s). prefix (given x) (map Some (taken x)))
    \<and> (\<forall>i n. Reading i n \<in> set (ops s) \<longrightarrow> (\<exists>x. sessions s i = Some x \<and> given x = map Some (taken x)))"
proof (intro conjI allI impI ballI)
  have inv: "heap_inv s" using server_reach_inv[OF assms] by (simp add: server_inv_def)
  show "prefix (given x) (map Some (taken x))" if "sessions s i = Some x" for i x
    using live_echoes[OF inv that] by (simp add: echoing_def)
  show "case p of (j, x) \<Rightarrow> prefix (given x) (map Some (taken x))" if "p \<in> set (ended s)" for p
    using inv that by (auto simp: heap_inv_def list_all_iff echoing_def)
  show "\<exists>x. sessions s i = Some x \<and> given x = map Some (taken x)" if "Reading i n \<in> set (ops s)" for i n
    using inv that by (fastforce simp: heap_inv_def list_all_iff op_ok_def)
qed

section \<open>Accepting\<close>

lemma one_accepting:
  assumes "server_inv s"
  obtains as i bs where "ops s = as @ Accepting i # bs" "filter accepting (ops s) = [Accepting i]"
proof -
  from assms obtain a where a: "filter accepting (ops s) = [a]"
    by (auto simp: server_inv_def length_Suc_conv)
  then have "a \<in> set (filter accepting (ops s))" by simp
  then have "a \<in> set (ops s)" "accepting a" by simp_all
  from this(2) obtain i where "a = Accepting i" by (cases a) auto
  with \<open>a \<in> set (ops s)\<close> a that show thesis by (metis split_list)
qed

lemma failed_accept:
  assumes "server_inv s"
  shows "\<exists>t. server_step s t \<and> next_session t = Suc (next_session s) \<and> length (ops t) = length (ops s)"
proof -
  obtain as i bs where ops: "ops s = as @ Accepting i # bs" using assms by (rule one_accepting)
  obtain x where x: "sessions s i = Some x" using assms ops by (auto simp: server_inv_def heap_inv_def op_ok_def)
  obtain t where t: "complete (Accepting i) (Failed 0) (s\<lparr>ops := as @ bs\<rparr>) = Inr t"
    using complete_keeps[of s as "Accepting i" bs "Failed 0"] assms ops by (auto simp: server_inv_def)
  then have "server_step s t" using server_step.intros[OF ops, of "Failed 0" t] by simp
  moreover have "next_session t = Suc (next_session s)" "length (ops t) = length (ops s)"
    using t x ops by (auto simp: session_defs start_accept_def Let_def)
  ultimately show ?thesis by blast
qed

text \<open>
  C31: the TLS server accepts for ever. In every reachable state exactly one accept is pending, so
  \<open>io_service.run\<close> never runs out of work; and a listening socket that keeps failing makes the
  server allocate and delete a session for each failure, as many as one likes, without anything
  else happening in between.
\<close>

theorem server_always_accepts:
  assumes "server_step\<^sup>*\<^sup>* server_init s"
  shows "(\<exists>i. filter accepting (ops s) = [Accepting i])
    \<and> (\<exists>t. (server_step ^^ n) s t \<and> next_session t = next_session s + n \<and> length (ops t) = length (ops s))"
proof
  have inv: "server_inv s" using assms by (rule server_reach_inv)
  then show "\<exists>i. filter accepting (ops s) = [Accepting i]" by (blast elim: one_accepting)
  show "\<exists>t. (server_step ^^ n) s t \<and> next_session t = next_session s + n \<and> length (ops t) = length (ops s)"
  proof (induction n)
    case (Suc n)
    then obtain t where t: "(server_step ^^ n) s t" "next_session t = next_session s + n" "length (ops t) = length (ops s)"
      by blast
    then have "server_inv t" using ssl_server.always[OF relpowp_imp_rtranclp inv] by blast
    from failed_accept[OF this] t show ?case by fastforce
  qed simp
qed

section \<open>Numbers\<close>

lemma split_sign_to_string: "split_sign (to_string i @ r) = (i < 0, show_nat (nat \<bar>i\<bar>) @ r)"
proof (cases "i < 0")
  case True
  then show ?thesis by (simp add: to_string_def split_sign_def)
next
  case False
  obtain d ds where "show_nat (nat i) = d # ds" "is_digit d" by (rule show_nat_head)
  with False show ?thesis by (simp add: to_string_def split_sign_digit)
qed

lemma atoi_to_string:
  assumes "int_range i" "delimited r" shows "atoi (to_string i @ r) = Some i"
proof -
  obtain c cs where c: "to_string i = c # cs" "\<not> is_space c" by (rule to_string_head)
  then have "dropWhile is_space (to_string i @ r) = to_string i @ r" by simp
  with assms show ?thesis
    by (simp add: atoi_def split_sign_to_string digits_delimited Let_def abs_if)
qed

text \<open>
  C33: the port is read modulo 65536. A number on the command line that is an \<open>int\<close>, whatever
  follows it, becomes the port congruent to it: exactly for a port number, wrapped without a
  message otherwise; text without a number asks for port 0.
\<close>

theorem port_wraps:
  "(int_range i \<and> delimited r \<longrightarrow> port_of (to_string i @ r) = Some (word_of_int i))
   \<and> (0 \<le> i \<and> i < 65536 \<longrightarrow> uint (word_of_int i :: 16 word) = i)
   \<and> (word_of_int (i + 65536) :: 16 word) = word_of_int i
   \<and> port_of [] = Some 0"
proof (intro conjI impI)
  show "port_of (to_string i @ r) = Some (word_of_int i)" if "int_range i \<and> delimited r"
    using that by (simp add: port_of_def atoi_to_string)
  show "uint (word_of_int i :: 16 word) = i" if "0 \<le> i \<and> i < 65536"
    using that by (simp add: uint_word_of_int)
  show "(word_of_int (i + 65536) :: 16 word) = word_of_int i"
    by simp
  show "port_of [] = Some 0"
    by (simp add: port_of_def atoi_def split_sign_def value_of_def int_range_def int_min_def int_max_def)
qed

text \<open>
  The modes printed by the TLS server are the low 32 bits of the word: read as a binary
  numeral, the text gives them back.
\<close>

lemma bitset_text_roundtrip:
  "length (bitset_text w) = 32
   \<and> horner_sum of_bool 2 (map (\<lambda>c. c = CHR ''1'') (rev (bitset_text w))) = take_bit 32 w"
proof -
  have "map (\<lambda>c. c = CHR ''1'') (rev (bitset_text w)) = map (bit w) [0..<32]"
    by (simp add: bitset_text_def rev_map comp_def)
  moreover have "length (bitset_text w) = 32" by (simp add: bitset_text_def)
  ultimately show ?thesis by (simp only: horner_sum_bit_eq_take_bit)
qed

section \<open>Client and server\<close>

text \<open>
  The client and one session of the server, with what the network promises: the session has read
  a prefix of what the client's library wrote, and the client reads a prefix of what the session
  wrote. Everything else happens as it may.
\<close>

definition session_known :: "nat \<Rightarrow> server \<Rightarrow> session option" where
  "session_known i s = (case sessions s i of Some x \<Rightarrow> Some x | None \<Rightarrow> map_of (ended s) i)"

inductive pair_step :: "nat \<Rightarrow> ssl_client \<times> server \<Rightarrow> ssl_client \<times> server \<Rightarrow> bool" for i where
  client_moves: "ssl_client_step c d \<Longrightarrow> (\<forall>b n. op c \<noteq> Some (Reading_reply b n)) \<Longrightarrow> pair_step i (c, s) (d, s)"
| reply_comes: "op c = Some (Reading_reply b n) \<Longrightarrow> length bs = (case e of None \<Rightarrow> n | Some _ \<Rightarrow> k) \<Longrightarrow> k \<le> n
    \<Longrightarrow> session_known i s = Some x \<Longrightarrow> prefix (map Some bs) (given x)
    \<Longrightarrow> client_handle_read e (length bs) (c\<lparr>op := None, reply := store bs (reply c)\<rparr>) = Inr d
    \<Longrightarrow> pair_step i (c, s) (d, s)"
| server_moves: "server_step s t \<Longrightarrow> (\<forall>x. session_known i t = Some x \<longrightarrow> prefix (taken x) (written c))
    \<Longrightarrow> pair_step i (c, s) (c, t)"

text \<open>The text of a reply that was printed is what was written.\<close>

definition answered :: "ssl_client \<Rightarrow> bool" where
  "answered c \<longleftrightarrow> (op c = None \<longrightarrow> (\<forall>text. last (printed c) = ''Reply: '' @ text \<longrightarrow> text = written c))"

definition pair_inv :: "nat \<Rightarrow> ssl_client \<times> server \<Rightarrow> bool" where
  "pair_inv i p \<longleftrightarrow> (case p of (c, s) \<Rightarrow> ssl_client_inv c \<and> server_inv s \<and> answered c
     \<and> (\<forall>x. session_known i s = Some x \<longrightarrow> prefix (taken x) (written c)))"

lemma known_echoes: "server_inv s \<Longrightarrow> session_known i s = Some x \<Longrightarrow> echoing x"
  using live_echoes[of s i x] by (auto simp: session_known_def server_inv_def heap_inv_def list_all_iff
      split: option.splits dest!: map_of_SomeD)

lemma reply_is_written:
  assumes "echoing x" "prefix (map Some bs) (given x)" "prefix (taken x) ws" "length bs = length ws"
  shows "bs = ws"
proof -
  have "prefix (map Some bs) (map Some (taken x))"
    using assms(1,2) by (auto simp: echoing_def intro: prefix_order.trans)
  then have "prefix bs (taken x)" by (auto simp: prefix_def append_eq_map_conv map_eq_append_conv inj_map_eq_map)
  then have "prefix bs ws" using assms(3) by (rule prefix_order.trans)
  with assms(4) show ?thesis by (auto simp: prefix_def)
qed

lemma answered_step:
  assumes "ssl_client_step c d" "\<forall>b n. op c \<noteq> Some (Reading_reply b n)"
  shows "answered d \<and> prefix (written c) (written d)"
  using assms(1)
proof cases
  case (connected e)
  then show ?thesis by (cases e) (simp_all add: answered_def client_handler_defs)
next
  case (shaken certs e)
  then show ?thesis by (cases e) (simp_all add: answered_def client_handler_defs)
next
  case (wrote b n bs e k)
  then show ?thesis by (cases e) (simp_all add: answered_def client_handler_defs)
qed (use assms(2) in blast)

interpretation echo_pair: invariant "pair_step i" "pair_inv i" for i
proof
  fix p q assume "pair_inv i p" "pair_step i p q"
  from this(2,1) show "pair_inv i q"
  proof cases
    case (client_moves c d s)
    with \<open>pair_inv i p\<close> show ?thesis
      using answered_step[of c d] ssl_client.keep[of c d] by (auto simp: pair_inv_def intro: prefix_order.trans)
  next
    case (reply_comes c b n bs e k s x d)
    with \<open>pair_inv i p\<close> have inv: "ssl_client_inv c" "server_inv s" "prefix (taken x) (written c)"
      by (auto simp: pair_inv_def)
    have "ssl_client_step c d" using reply_comes by (auto intro: ssl_client_step.read)
    with inv(1) have "ssl_client_inv d" by (rule ssl_client.keep)
    moreover have "answered d \<and> written d = written c"
    proof (cases e)
      case None
      with reply_comes inv(1) have n: "length bs = length (written c)" "n = length bs" "n \<le> length (reply c)"
        by (auto simp: ssl_client_inv_def client_max_length_def)
      then have "bs = written c" using reply_is_written[OF known_echoes[OF inv(2)]] reply_comes inv(3) by blast
      with n None reply_comes show ?thesis by (auto simp: client_handle_read_def say_def answered_def)
    next
      case (Some message)
      with reply_comes show ?thesis by (auto simp: client_handle_read_def say_def answered_def)
    qed
    ultimately show ?thesis using inv reply_comes \<open>pair_inv i p\<close> by (simp add: pair_inv_def)
  next
    case (server_moves s t c)
    with \<open>pair_inv i p\<close> show ?thesis using ssl_server.keep by (auto simp: pair_inv_def)
  qed
qed

text \<open>
  C32: the reply is the request. When the TLS client talks to a session of the TLS server over a
  network that neither invents nor reorders bytes, then in every interleaving of their handlers,
  with the other sessions of the server doing as they like, the reply that the client prints is
  exactly what its own library wrote.
\<close>

theorem reply_is_request:
  assumes "(pair_step i)\<^sup>*\<^sup>* (ssl_client_init, server_init) (c, s)" "op c = None"
    and "last (printed c) = ''Reply: '' @ text"
  shows "text = written c \<and> length text = 7 \<and> list_all id (verdicts c)"
proof -
  have "pair_inv i (ssl_client_init, server_init)"
    using ssl_client_inv_init server_inv_init
    by (simp add: pair_inv_def answered_def ssl_client_init_def session_known_def server_init_def start_accept_def
        Let_def async_def new_session_def)
  with assms(1) have "pair_inv i (c, s)" by (rule echo_pair.always)
  then have "answered c" "ssl_client_inv c" by (simp_all add: pair_inv_def)
  moreover from this have "length (written c) = 7" "list_all id (verdicts c)"
    using assms(2,3) by (auto simp: ssl_client_inv_def)
  ultimately show ?thesis using assms(2,3) by (simp add: answered_def)
qed

section \<open>A run\<close>

definition demo_session :: session where
  "demo_session = \<lparr>data = store ''REQUEST'' (replicate session_max_length None), taken = ''REQUEST'', given = map Some ''REQUEST''\<rparr>"

definition demo_server :: "server_op \<Rightarrow> session \<Rightarrow> server" where
  "demo_server a x = \<lparr>sessions = [0 \<mapsto> x, 1 \<mapsto> new_session], next_session = 2, ops = [Accepting 1, a], ended = []\<rparr>"

definition demo_accepted :: server where
  "demo_accepted = (demo_server (Handshaking 0) new_session)\<lparr>ops := [Handshaking 0, Accepting 1]\<rparr>"

lemma demo_server_steps:
  "server_step server_init demo_accepted"
  "server_step demo_accepted (demo_server (Reading 0 1024) new_session)"
  "server_step (demo_server (Reading 0 1024) new_session) (demo_server (Writing 0 7) (demo_session\<lparr>given := []\<rparr>))"
  "server_step (demo_server (Writing 0 7) (demo_session\<lparr>given := []\<rparr>)) (demo_server (Reading 0 1024) demo_session)"
proof -
  have read: "server_step s t"
    if "ops s = as @ a # bs" "allowed a r" "complete a r (s\<lparr>ops := as @ bs\<rparr>) = Inr t" for s t as a bs r
    using that by (rule server_step.intros)
  show "server_step server_init demo_accepted"
    by (rule read[of _ "[]" "Accepting 0" "[]" "Succeeded []"])
      (simp_all add: demo_accepted_def demo_server_def server_init_def start_accept_def session_defs Let_def)
  show "server_step demo_accepted (demo_server (Reading 0 1024) new_session)"
    by (rule read[of _ "[]" "Handshaking 0" "[Accepting 1]" "Succeeded []"])
      (simp_all add: demo_accepted_def demo_server_def session_defs session_max_length_def)
  show "server_step (demo_server (Reading 0 1024) new_session) (demo_server (Writing 0 7) (demo_session\<lparr>given := []\<rparr>))"
    by (rule read[of _ "[Accepting 1]" "Reading 0 1024" "[]" "Succeeded ''REQUEST''"])
      (simp_all add: demo_server_def session_defs new_session_def demo_session_def fun_upd_twist)
  show "server_step (demo_server (Writing 0 7) (demo_session\<lparr>given := []\<rparr>)) (demo_server (Reading 0 1024) demo_session)"
    by (rule read[of _ "[Accepting 1]" "Writing 0 7" "[]" "Succeeded []"])
      (simp_all add: demo_server_def session_defs demo_session_def store_def session_max_length_def fun_upd_twist)
qed

text \<open>The client connects and writes, the server accepts and echoes, the client prints the reply.\<close>

definition demo_client :: ssl_client where
  "demo_client = client_wrote ''REQUEST''"

definition demo_answered :: ssl_client where
  "demo_answered = demo_client\<lparr>op := None, reply := store ''REQUEST'' (reply demo_client), printed := [''Reply: REQUEST'']\<rparr>"

lemma demo_pair_reach: "(pair_step 0)\<^sup>*\<^sup>* (ssl_client_init, server_init) (demo_answered, demo_server (Reading 0 1024) demo_session)"
proof -
  have quiet: "(pair_step 0)\<^sup>*\<^sup>* (ssl_client_init, server_init) (demo_client, server_init)"
  proof -
    have "pair_step 0 (ssl_client_init, server_init) (client_shaking, server_init)"
      using client_steps(1) by (rule pair_step.client_moves) (simp add: ssl_client_init_def)
    moreover have "pair_step 0 (client_shaking, server_init) (client_writing, server_init)"
      using client_steps(2) by (rule pair_step.client_moves) (simp add: client_shaking_def)
    moreover have "pair_step 0 (client_writing, server_init) (client_wrote ''REQUEST'', server_init)"
      by (rule pair_step.client_moves[OF client_steps(3)]) (simp_all add: client_writing_def)
    ultimately show ?thesis unfolding demo_client_def by (meson converse_rtranclp_into_rtranclp rtranclp.rtrancl_refl)
  qed
  have move: "pair_step 0 (demo_client, s) (demo_client, t)"
    if "server_step s t" "sessions t 0 = Some x" "prefix (taken x) ''REQUEST''" for s t x
    using that by (intro pair_step.server_moves) (auto simp: session_known_def demo_client_def client_wrote_def)
  note steps = move[OF demo_server_steps(1)] move[OF demo_server_steps(2)] move[OF demo_server_steps(3)]
    move[OF demo_server_steps(4)]
  have "pair_step 0 (demo_client, server_init) (demo_client, demo_accepted)"
    "pair_step 0 (demo_client, demo_accepted) (demo_client, demo_server (Reading 0 1024) new_session)"
    "pair_step 0 (demo_client, demo_server (Reading 0 1024) new_session)
       (demo_client, demo_server (Writing 0 7) (demo_session\<lparr>given := []\<rparr>))"
    "pair_step 0 (demo_client, demo_server (Writing 0 7) (demo_session\<lparr>given := []\<rparr>))
       (demo_client, demo_server (Reading 0 1024) demo_session)"
    using steps by (simp_all add: demo_server_def demo_accepted_def new_session_def demo_session_def)
  moreover have "pair_step 0 (demo_client, demo_server (Reading 0 1024) demo_session)
     (demo_answered, demo_server (Reading 0 1024) demo_session)"
    by (rule pair_step.reply_comes[where b = Member_reply and n = 7 and bs = "''REQUEST''" and e = None and k = 0
          and x = demo_session])
      (simp_all add: demo_client_def client_wrote_def demo_server_def session_known_def demo_session_def client_handle_read_def say_def
        demo_answered_def client_writing_def ssl_client_init_def client_max_length_def)
  ultimately show ?thesis using quiet by (meson rtranclp.rtrancl_into_rtrancl)
qed

lemma demo_server_reach: "server_step\<^sup>*\<^sup>* server_init (demo_server (Reading 0 1024) demo_session)"
  using demo_server_steps by (meson converse_rtranclp_into_rtranclp rtranclp.rtrancl_refl)

theorem server_memory_safe_witness:
  "\<exists>t. complete (Reading 0 1024) (Failed 0) ((demo_server (Reading 0 1024) demo_session)\<lparr>ops := [Accepting 1]\<rparr>) = Inr t"
proof -
  have "ops (demo_server (Reading 0 1024) demo_session) = [Accepting 1] @ Reading 0 1024 # []"
    by (simp add: demo_server_def)
  with server_memory_safe[OF demo_server_reach] show ?thesis
    by (metis allowed.simps(3) append_Nil2 completion.simps(5))
qed

theorem server_echoes_witness:
  "\<exists>x. sessions (demo_server (Reading 0 1024) demo_session) 0 = Some x \<and> given x = map Some (taken x)"
  using server_echoes[OF demo_server_reach] by (simp add: demo_server_def)

theorem server_always_accepts_witness:
  "\<exists>t. (server_step ^^ 3) server_init t \<and> next_session t = next_session server_init + 3"
  using server_always_accepts[of server_init 3] by blast

theorem port_wraps_witness:
  "port_of (to_string 70000 @ '' x'') = Some (word_of_int 70000) \<and> uint (word_of_int 443 :: 16 word) = 443"
  using port_wraps[of 70000 "'' x''"] port_wraps[of 443 "[]"] by (simp add: int_range_def int_min_def int_max_def delimited_def)

theorem reply_is_request_witness:
  "''REQUEST'' = written demo_answered \<and> length ''REQUEST'' = 7 \<and> list_all id (verdicts demo_answered)"
  by (rule reply_is_request[OF demo_pair_reach]) (simp_all add: demo_answered_def demo_client_def client_wrote_def)

end
