(* ===== verification/Telemetry_Client.thy ===== *)
theory Telemetry_Client
  imports Client_Views "HOL-Library.Word"
begin

text \<open>
  The two clients the client process can be built with (clients/telemetry-client.hpp and
  clients/telemetry-client-tls.hpp): the base client with handlers that set up the socket and, with
  TLS, the context of a connection. The calls into Boost.Asio may throw; what they throw is a
  parameter.
\<close>

unbundle bit_operations_syntax

section \<open>Clients\<close>

record telemetry_client = client +
  socket_init_handler :: bool
  tls_init_handler :: bool

definition plain_telemetry_client :: "string \<Rightarrow> int \<Rightarrow> bool \<Rightarrow> int \<Rightarrow> int \<Rightarrow> telemetry_client" where
  "plain_telemetry_client ident msgs rand ival len =
     client.extend (base_client ident msgs rand ival len) \<lparr>socket_init_handler = True, tls_init_handler = False\<rparr>"

definition tls_telemetry_client :: "string \<Rightarrow> int \<Rightarrow> bool \<Rightarrow> int \<Rightarrow> int \<Rightarrow> telemetry_client" where
  "tls_telemetry_client ident msgs rand ival len =
     client.extend (base_client ident msgs rand ival len) \<lparr>socket_init_handler = True, tls_init_handler = True\<rparr>"

section \<open>Handlers\<close>

text \<open>The options of a socket; an option is refused by an exception.\<close>

record tcp_socket =
  no_delay :: bool
  receive_buffer_size :: int

definition on_socket_init :: "string option \<Rightarrow> string option \<Rightarrow> tcp_socket \<Rightarrow> string + tcp_socket" where
  "on_socket_init set_throws get_throws socket = (case set_throws of
       Some what \<Rightarrow> Inl what
     | None \<Rightarrow> (let socket' = socket\<lparr>no_delay := True\<rparr>
               in case get_throws of Some what \<Rightarrow> Inl what | None \<Rightarrow> Inr socket'))"

datatype tls_method = Tlsv1

record tls_context =
  tls_version :: tls_method
  context_options :: "64 word list"

text \<open>
  \<open>on_tls_init\<close> takes the three option constants and what setting them throws, and yields the
  context and what it prints.
\<close>

definition on_tls_init :: "64 word \<Rightarrow> 64 word \<Rightarrow> 64 word \<Rightarrow> (64 word \<Rightarrow> string option) \<Rightarrow> tls_context \<times> string list" where
  "on_tls_init workarounds no_sslv2 single_dh throws =
     (let ctx = \<lparr>tls_version = Tlsv1, context_options = []\<rparr>;
          options = workarounds OR no_sslv2 OR single_dh
      in case throws options of
           None \<Rightarrow> (ctx\<lparr>context_options := context_options ctx @ [options]\<rparr>, [])
         | Some what \<Rightarrow> (ctx, [what]))"

section \<open>What they promise\<close>

text \<open>The threads of a telemetry client run the code of the base class.\<close>

inductive telemetry_client_step :: "fp \<Rightarrow> telemetry_client \<Rightarrow> telemetry_client \<Rightarrow> bool" for F where
  opened: "connected c \<Longrightarrow> telemetry_client_step F c (on_open F us c)"
| closed: "connected c \<Longrightarrow> telemetry_client_step F c (on_close c)"
| failed: "connected c \<Longrightarrow> telemetry_client_step F c (on_fail c)"
| echoed: "connected c \<Longrightarrow> telemetry_client_step F c (on_message F us c)"
| telemetry: "threads_started c \<Longrightarrow> telemetry_client_step F c (telemetry_step draws ec c)"

lemma telemetry_client_step_base: "telemetry_client_step F c d \<Longrightarrow> client_step F (base_of c) (base_of d)"
  by (induction rule: telemetry_client_step.induct)
    (auto simp: base_of_handlers base_of_loop intro: client_step.intros)

interpretation telemetry_client: simulation "telemetry_client_step F" "\<lambda>_. True" "client_step F" base_of for F
  by unfold_locales (auto intro: telemetry_client_step_base)

lemma base_of_telemetry_clients:
  "base_of (client_run False (plain_telemetry_client ident msgs rand ival len)) = started_client ident msgs rand ival len"
  "base_of (client_run False (tls_telemetry_client ident msgs rand ival len)) = started_client ident msgs rand ival len"
  by (simp_all add: base_of_def client.truncate_def client_run_def plain_telemetry_client_def tls_telemetry_client_def
      client.extend_def started_client_def base_client_def)


text \<open>
  TLS contexts are always handed out. The context is for TLS 1; either it has the union of the
  three options and nothing is printed, or, when the library refused them, it has none of them,
  and the connection goes on with it after one line of output.
\<close>

lemma tls_context_handed_out:
  "case on_tls_init workarounds no_sslv2 single_dh throws of (ctx, ls) \<Rightarrow>
     tls_version ctx = Tlsv1 \<and> (context_options ctx = [workarounds OR no_sslv2 OR single_dh] \<and> ls = []
       \<or> context_options ctx = [] \<and> throws (workarounds OR no_sslv2 OR single_dh) = Some (hd ls) \<and> length ls = 1)"
  by (simp add: on_tls_init_def Let_def split: option.split)


end
