(* ===== verification/Zmq_Handles.thy ===== *)
theory Zmq_Handles
  imports Machines
begin

text \<open>
  The objects of the C++ binding of ZeroMQ that own something of the C library (zmq.hpp): contexts
  and sockets own a handle, messages own a \<open>zmq_msg_t\<close>. Objects are named by addresses; a step is
  one operation of the binding on living objects, and the C library decides whether it can make
  what it is asked for.
\<close>

section \<open>Contexts and sockets\<close>

text \<open>
  The pointer is \<open>None\<close> for NULL. A socket also keeps the pointer of its context, which its move
  constructor leaves unset and its move assignment leaves where it was.
\<close>

record handle =
  ptr :: "nat option"

record sock = handle +
  ctxptr :: "nat option option"

text \<open>The living objects, and the calls that destroy a handle.\<close>

record 'o pool =
  objs :: "nat \<rightharpoonup> 'o"
  next_handle :: nat
  destroyed :: "nat list"

definition empty_pool :: "'o pool" where
  "empty_pool = \<lparr>objs = Map.empty, next_handle = 0, destroyed = []\<rparr>"

text \<open>\<open>close\<close> does nothing on NULL, otherwise it destroys the handle and sets the pointer to NULL.\<close>

definition handle_close :: "nat \<Rightarrow> 'm handle_scheme \<Rightarrow> 'm handle_scheme pool \<Rightarrow> 'm handle_scheme pool" where
  "handle_close i x p = (case ptr x of
       None \<Rightarrow> p
     | Some h \<Rightarrow> p\<lparr>objs := (objs p)(i \<mapsto> x\<lparr>ptr := None\<rparr>), destroyed := destroyed p @ [h]\<rparr>)"

definition handle_destructor :: "nat \<Rightarrow> 'm handle_scheme \<Rightarrow> 'm handle_scheme pool \<Rightarrow> 'm handle_scheme pool" where
  "handle_destructor i x p = (let q = handle_close i x p in q\<lparr>objs := (objs q)(i := None)\<rparr>)"

text \<open>The constructors: a call that yields NULL throws, and no object comes to be.\<close>

definition context_ctor :: "bool \<Rightarrow> nat \<Rightarrow> handle pool \<Rightarrow> handle pool" where
  "context_ctor ok i p = (if \<not> ok then p
     else p\<lparr>objs := (objs p)(i \<mapsto> \<lparr>ptr = Some (next_handle p)\<rparr>), next_handle := Suc (next_handle p)\<rparr>)"

text \<open>With a number of threads: setting the option must succeed (\<open>ZMQ_ASSERT\<close>).\<close>

definition context_ctor_threads :: "bool \<Rightarrow> bool \<Rightarrow> nat \<Rightarrow> handle pool \<Rightarrow> fault + handle pool" where
  "context_ctor_threads ok option_set i p =
     (if ok \<and> \<not> option_set then Inl Assertion_failed else Inr (context_ctor ok i p))"

definition socket_ctor :: "bool \<Rightarrow> nat option \<Rightarrow> nat \<Rightarrow> sock pool \<Rightarrow> sock pool" where
  "socket_ctor ok ctx i p = (if \<not> ok then p
     else p\<lparr>objs := (objs p)(i \<mapsto> \<lparr>ptr = Some (next_handle p), ctxptr = Some ctx\<rparr>), next_handle := Suc (next_handle p)\<rparr>)"

definition context_move :: "nat \<Rightarrow> nat \<Rightarrow> handle \<Rightarrow> handle pool \<Rightarrow> handle pool" where
  "context_move i j rhs p = p\<lparr>objs := (objs p)(i \<mapsto> \<lparr>ptr = ptr rhs\<rparr>, j \<mapsto> rhs\<lparr>ptr := None\<rparr>)\<rparr>"

definition socket_move :: "nat \<Rightarrow> nat \<Rightarrow> sock \<Rightarrow> sock pool \<Rightarrow> sock pool" where
  "socket_move i j rhs p = p\<lparr>objs := (objs p)(i \<mapsto> \<lparr>ptr = ptr rhs, ctxptr = None\<rparr>, j \<mapsto> rhs\<lparr>ptr := None\<rparr>)\<rparr>"

definition handle_assign :: "nat \<Rightarrow> nat \<Rightarrow> 'm handle_scheme \<Rightarrow> 'm handle_scheme \<Rightarrow> 'm handle_scheme pool \<Rightarrow> 'm handle_scheme pool" where
  "handle_assign i j x rhs p = p\<lparr>objs := (objs p)(i \<mapsto> x\<lparr>ptr := ptr rhs\<rparr>, j \<mapsto> rhs\<lparr>ptr := ptr x\<rparr>)\<rparr>"

inductive context_step :: "handle pool \<Rightarrow> handle pool \<Rightarrow> bool" where
  ctor: "objs p i = None \<Longrightarrow> context_step p (context_ctor ok i p)"
| ctor_threads: "objs p i = None \<Longrightarrow> context_ctor_threads ok option_set i p = Inr q \<Longrightarrow> context_step p q"
| move: "objs p i = None \<Longrightarrow> objs p j = Some rhs \<Longrightarrow> context_step p (context_move i j rhs p)"
| assign: "objs p i = Some x \<Longrightarrow> objs p j = Some rhs \<Longrightarrow> i \<noteq> j \<Longrightarrow> context_step p (handle_assign i j x rhs p)"
| close: "objs p i = Some x \<Longrightarrow> context_step p (handle_close i x p)"
| dtor: "objs p i = Some x \<Longrightarrow> context_step p (handle_destructor i x p)"

inductive socket_step :: "sock pool \<Rightarrow> sock pool \<Rightarrow> bool" where
  ctor: "objs p i = None \<Longrightarrow> socket_step p (socket_ctor ok ctx i p)"
| move: "objs p i = None \<Longrightarrow> objs p j = Some rhs \<Longrightarrow> socket_step p (socket_move i j rhs p)"
| assign: "objs p i = Some x \<Longrightarrow> objs p j = Some rhs \<Longrightarrow> i \<noteq> j \<Longrightarrow> socket_step p (handle_assign i j x rhs p)"
| close: "objs p i = Some x \<Longrightarrow> socket_step p (handle_close i x p)"
| dtor: "objs p i = Some x \<Longrightarrow> socket_step p (handle_destructor i x p)"

section \<open>Ownership\<close>

text \<open>
  Every handle the C library made is either owned by exactly one object or destroyed, never both
  and never twice.
\<close>

definition owns :: "'m handle_scheme pool \<Rightarrow> nat \<Rightarrow> nat \<Rightarrow> bool" where
  "owns p i h \<longleftrightarrow> (\<exists>x. objs p i = Some x \<and> ptr x = Some h)"

definition owned_once :: "'m handle_scheme pool \<Rightarrow> bool" where
  "owned_once p \<longleftrightarrow> distinct (destroyed p)
     \<and> (\<forall>h. h < next_handle p \<longleftrightarrow> h \<in> set (destroyed p) \<or> (\<exists>i. owns p i h))
     \<and> (\<forall>h i. owns p i h \<longrightarrow> h \<notin> set (destroyed p)) \<and> (\<forall>h i j. owns p i h \<longrightarrow> owns p j h \<longrightarrow> i = j)"

text \<open>Operations that leave the handles alone, hand them over, make one or destroy one.\<close>

lemma owned_once_same:
  assumes "owned_once p" "\<And>h. (\<exists>i. owns q i h) \<longleftrightarrow> (\<exists>i. owns p i h)"
    and "\<And>h i j. owns q i h \<Longrightarrow> owns q j h \<Longrightarrow> i = j"
    and "destroyed q = destroyed p" "next_handle q = next_handle p"
  shows "owned_once q"
  using assms unfolding owned_once_def by metis

lemma owned_once_ctor:
  assumes "owned_once p" "objs p i = None" "ptr x = Some (next_handle p)"
  shows "owned_once (p\<lparr>objs := (objs p)(i \<mapsto> x), next_handle := Suc (next_handle p)\<rparr>)"
proof -
  let ?q = "p\<lparr>objs := (objs p)(i \<mapsto> x), next_handle := Suc (next_handle p)\<rparr>"
  have o: "owns ?q j h \<longleftrightarrow> owns p j h \<or> j = i \<and> h = next_handle p" for j h
    using assms(2,3) by (auto simp: owns_def)
  have "\<not> owns p j (next_handle p)" "next_handle p \<notin> set (destroyed p)" for j
    using assms(1) unfolding owned_once_def by blast+
  then show ?thesis using assms(1) unfolding owned_once_def o by (auto simp: less_Suc_eq)
qed

lemma owned_once_close:
  assumes "owned_once p" "objs p i = Some x" shows "owned_once (handle_close i x p)"
proof (cases "ptr x")
  case (Some h)
  have o: "owns (handle_close i x p) j k \<longleftrightarrow> owns p j k \<and> j \<noteq> i" for j k
    using Some by (auto simp: owns_def handle_close_def)
  have own: "owns p i h" using assms(2) Some by (auto simp: owns_def)
  have "owns p i k \<longleftrightarrow> k = h" for k using assms(2) Some by (auto simp: owns_def)
  with assms(1) own show ?thesis
    unfolding owned_once_def o by (auto simp: handle_close_def Some)
qed (use assms in \<open>simp add: handle_close_def\<close>)

lemma owned_once_dtor:
  assumes "owned_once p" "objs p i = Some x" shows "owned_once (handle_destructor i x p)"
proof -
  let ?q = "handle_close i x p"
  have "\<not> owns ?q i h" for h
    using assms(2) by (cases "ptr x") (auto simp: owns_def handle_close_def)
  then have "owns (handle_destructor i x p) j h \<longleftrightarrow> owns ?q j h" for j h
    by (auto simp: handle_destructor_def Let_def owns_def)
  then show ?thesis
    using owned_once_close[OF assms] by (simp add: owned_once_def handle_destructor_def Let_def)
qed

lemma owned_once_assign:
  assumes "owned_once p" "objs p i = Some x" "objs p j = Some y" "i \<noteq> j"
  shows "owned_once (handle_assign i j x y p)"
proof -
  have o: "owns (handle_assign i j x y p) k h \<longleftrightarrow> owns p (if k = i then j else if k = j then i else k) h" for k h
    using assms(2-4) by (auto simp: owns_def handle_assign_def)
  show ?thesis
  proof (rule owned_once_same[OF assms(1)])
    show "(\<exists>k. owns (handle_assign i j x y p) k h) \<longleftrightarrow> (\<exists>k. owns p k h)" for h
      unfolding o by (metis assms(4))
    show "k = l" if "owns (handle_assign i j x y p) k h" "owns (handle_assign i j x y p) l h" for h k l
      using that assms(1,4) unfolding o owned_once_def by (metis (full_types))
  qed (simp_all add: handle_assign_def)
qed

lemma owned_once_move:
  assumes "owned_once p" "objs p i = None" "objs p j = Some rhs" "ptr x = ptr rhs" "ptr y = None"
  shows "owned_once (p\<lparr>objs := (objs p)(i \<mapsto> x, j \<mapsto> y)\<rparr>)"
proof -
  let ?q = "p\<lparr>objs := (objs p)(i \<mapsto> x, j \<mapsto> y)\<rparr>"
  have ij: "i \<noteq> j" using assms(2,3) by auto
  have o: "owns ?q k h \<longleftrightarrow> k \<noteq> j \<and> owns p (if k = i then j else k) h" for k h
    using assms ij by (auto simp: owns_def)
  have free: "\<not> owns p i h" for h using assms(2) by (simp add: owns_def)
  show ?thesis
  proof (rule owned_once_same[OF assms(1)])
    show "(\<exists>k. owns ?q k h) \<longleftrightarrow> (\<exists>k. owns p k h)" for h
      unfolding o using free ij by metis
    show "k = l" if "owns ?q k h" "owns ?q l h" for h k l
      using that assms(1) unfolding o owned_once_def by (metis (full_types))
  qed simp_all
qed

interpretation contexts: invariant context_step owned_once
proof
  fix p q assume "owned_once p" "context_step p q"
  from this(2,1) show "owned_once q"
    by cases (auto simp: context_ctor_threads_def context_ctor_def context_move_def split: if_splits
        intro: owned_once_ctor owned_once_close owned_once_dtor owned_once_assign owned_once_move)
qed

interpretation sockets: invariant socket_step owned_once
proof
  fix p q assume "owned_once p" "socket_step p q"
  from this(2,1) show "owned_once q"
    by cases (auto simp: socket_ctor_def socket_move_def
        intro: owned_once_ctor owned_once_close owned_once_dtor owned_once_assign owned_once_move)
qed

lemma owned_once_empty: "owned_once empty_pool"
  by (simp add: owned_once_def empty_pool_def owns_def)

lemma no_object_left: "owned_once p \<Longrightarrow> objs p = Map.empty \<Longrightarrow> set (destroyed p) = {..<next_handle p}"
  by (auto simp: owned_once_def owns_def)


section \<open>Messages\<close>

text \<open>
  A \<open>zmq_msg_t\<close> holds bytes until it is closed; the C library refuses a closed one (\<open>EFAULT\<close>).
  Making one with room for data may fail, making an empty one does not. An operation yields the
  objects it leaves, having thrown or not, or a failed assertion.
\<close>

datatype zmsg = Message bytes | Closed_message

type_synonym msgs = "nat \<rightharpoonup> zmsg"

definition message_ctor :: "bool \<Rightarrow> bytes \<Rightarrow> nat \<Rightarrow> msgs \<Rightarrow> msgs" where
  "message_ctor ok bs i m = (if ok then m(i \<mapsto> Message bs) else m)"

definition message_move_ctor :: "nat \<Rightarrow> nat \<Rightarrow> zmsg \<Rightarrow> msgs \<Rightarrow> msgs" where
  "message_move_ctor i j rhs m = m(i \<mapsto> rhs, j \<mapsto> Message [])"

definition message_assign :: "nat \<Rightarrow> nat \<Rightarrow> zmsg \<Rightarrow> zmsg \<Rightarrow> msgs \<Rightarrow> msgs" where
  "message_assign i j x rhs m = m(i \<mapsto> rhs, j \<mapsto> x)"

definition message_dtor :: "nat \<Rightarrow> zmsg \<Rightarrow> msgs \<Rightarrow> fault + msgs" where
  "message_dtor i x m = (case x of
       Closed_message \<Rightarrow> Inl Assertion_failed
     | Message bs \<Rightarrow> Inr (m(i := None)))"

text \<open>The three forms of \<open>rebuild\<close>; the flag says whether the new message could be made.\<close>

definition message_rebuild :: "bool \<Rightarrow> bytes \<Rightarrow> nat \<Rightarrow> zmsg \<Rightarrow> msgs \<Rightarrow> msgs" where
  "message_rebuild ok bs i x m = (case x of
       Closed_message \<Rightarrow> m
     | Message old \<Rightarrow> if ok then m(i \<mapsto> Message bs) else m(i \<mapsto> Closed_message))"

definition message_move :: "nat \<Rightarrow> nat \<Rightarrow> zmsg \<Rightarrow> zmsg \<Rightarrow> msgs \<Rightarrow> msgs" where
  "message_move i j x src m = (case (x, src) of
       (Message old, Message bs) \<Rightarrow> m(i \<mapsto> Message bs, j \<mapsto> Message [])
     | _ \<Rightarrow> m)"

definition message_copy :: "nat \<Rightarrow> nat \<Rightarrow> zmsg \<Rightarrow> zmsg \<Rightarrow> msgs \<Rightarrow> msgs" where
  "message_copy i j x src m = (case (x, src) of
       (Message old, Message bs) \<Rightarrow> m(i \<mapsto> Message bs)
     | _ \<Rightarrow> m)"

text \<open>The bytes of a message and their number; a closed message has none to show.\<close>

definition message_data :: "zmsg \<Rightarrow> bytes option" where
  "message_data x = (case x of Message bs \<Rightarrow> Some bs | Closed_message \<Rightarrow> None)"

definition message_size :: "zmsg \<Rightarrow> nat option" where
  "message_size x = map_option length (message_data x)"

text \<open>One operation on living objects. \<open>enough\<close> says that no \<open>rebuild\<close> runs out of memory.\<close>

inductive message_step :: "bool \<Rightarrow> msgs \<Rightarrow> fault + msgs \<Rightarrow> bool" for enough where
  ctor: "m i = None \<Longrightarrow> message_step enough m (Inr (message_ctor ok bs i m))"
| move_ctor: "m i = None \<Longrightarrow> m j = Some rhs \<Longrightarrow> message_step enough m (Inr (message_move_ctor i j rhs m))"
| assign: "m i = Some x \<Longrightarrow> m j = Some rhs \<Longrightarrow> message_step enough m (Inr (message_assign i j x rhs m))"
| dtor: "m i = Some x \<Longrightarrow> message_step enough m (message_dtor i x m)"
| rebuild: "m i = Some x \<Longrightarrow> enough \<longrightarrow> ok \<Longrightarrow> message_step enough m (Inr (message_rebuild ok bs i x m))"
| move: "m i = Some x \<Longrightarrow> m j = Some src \<Longrightarrow> message_step enough m (Inr (message_move i j x src m))"
| copy: "m i = Some x \<Longrightarrow> m j = Some src \<Longrightarrow> message_step enough m (Inr (message_copy i j x src m))"

definition message_run :: "bool \<Rightarrow> msgs \<Rightarrow> msgs \<Rightarrow> bool" where
  "message_run enough m n \<longleftrightarrow> message_step enough m (Inr n)"

definition none_closed :: "msgs \<Rightarrow> bool" where
  "none_closed m \<longleftrightarrow> (\<forall>i. m i \<noteq> Some Closed_message)"

lemma message_step_ok:
  assumes "none_closed m" "message_step True m r"
  shows "\<exists>n. r = Inr n \<and> none_closed n"
  using assms(2,1)
  by cases (auto simp: none_closed_def message_ctor_def message_move_ctor_def message_assign_def message_dtor_def
      message_rebuild_def message_move_def message_copy_def split: zmsg.splits)

interpretation messages: invariant "message_run True" none_closed
  by unfold_locales (auto simp: message_run_def dest: message_step_ok)


section \<open>Runs\<close>

definition demo_contexts :: "handle pool" where
  "demo_contexts = \<lparr>objs = [0 \<mapsto> \<lparr>ptr = Some 0\<rparr>], next_handle = 1, destroyed = []\<rparr>"

lemma demo_contexts_reach: "context_step\<^sup>*\<^sup>* empty_pool (handle_destructor 0 \<lparr>ptr = Some 0\<rparr> demo_contexts)"
proof -
  have "context_step empty_pool demo_contexts"
    using context_step.ctor[of empty_pool 0 True] by (simp add: context_ctor_def empty_pool_def demo_contexts_def)
  moreover have "context_step demo_contexts (handle_destructor 0 \<lparr>ptr = Some 0\<rparr> demo_contexts)"
    by (rule context_step.dtor) (simp add: demo_contexts_def)
  ultimately show ?thesis by (meson converse_rtranclp_into_rtranclp rtranclp.rtrancl_refl)
qed



end
