(* ===== verification/Monitor.thy ===== *)
theory Monitor
  imports Zmq_Handles
begin

text \<open>
  The socket monitor of the binding (\<open>monitor_t\<close> of zmq.hpp, with the event layout of ZeroMQ 3.3 and
  later): it reads the events of a socket from a second socket, an event and an address at a time,
  and calls a virtual method for each. The answers of the receive calls are a parameter, as is
  the reading of an event from the bytes of its frame.
\<close>

section \<open>Events and methods\<close>

datatype monitor_event =
    ZMQ_EVENT_CONNECTED
  | ZMQ_EVENT_CONNECT_DELAYED
  | ZMQ_EVENT_CONNECT_RETRIED
  | ZMQ_EVENT_LISTENING
  | ZMQ_EVENT_BIND_FAILED
  | ZMQ_EVENT_ACCEPTED
  | ZMQ_EVENT_ACCEPT_FAILED
  | ZMQ_EVENT_CLOSED
  | ZMQ_EVENT_CLOSE_FAILED
  | ZMQ_EVENT_DISCONNECTED
  | ZMQ_EVENT_MONITOR_STOPPED
  | Other_event int

datatype monitor_method =
    On_monitor_started
  | On_event_connected string
  | On_event_connect_delayed string
  | On_event_connect_retried string
  | On_event_listening string
  | On_event_bind_failed string
  | On_event_accepted string
  | On_event_accept_failed string
  | On_event_closed string
  | On_event_close_failed string
  | On_event_disconnected string
  | On_event_unknown string

text \<open>The method that is called for an event, with the address.\<close>

fun dispatch :: "monitor_event \<Rightarrow> string \<Rightarrow> monitor_method" where
  "dispatch ZMQ_EVENT_CONNECTED a = On_event_connected a"
| "dispatch ZMQ_EVENT_CONNECT_DELAYED a = On_event_connect_delayed a"
| "dispatch ZMQ_EVENT_CONNECT_RETRIED a = On_event_connect_retried a"
| "dispatch ZMQ_EVENT_LISTENING a = On_event_listening a"
| "dispatch ZMQ_EVENT_BIND_FAILED a = On_event_bind_failed a"
| "dispatch ZMQ_EVENT_ACCEPTED a = On_event_accepted a"
| "dispatch ZMQ_EVENT_ACCEPT_FAILED a = On_event_accept_failed a"
| "dispatch ZMQ_EVENT_CLOSED a = On_event_closed a"
| "dispatch ZMQ_EVENT_CLOSE_FAILED a = On_event_close_failed a"
| "dispatch ZMQ_EVENT_DISCONNECTED a = On_event_disconnected a"
| "dispatch _ a = On_event_unknown a"

text \<open>\<open>c_str\<close>: what a C string shows of a string.\<close>

definition c_str :: "string \<Rightarrow> string" where
  "c_str = takeWhile (\<lambda>c. c \<noteq> CHR 0x00)"

section \<open>The loop\<close>

text \<open>
  \<open>messages\<close> counts the messages that were initialised and not closed, \<open>pairs\<close> the sockets the
  monitor has opened and not closed.
\<close>

record monitor =
  socketPtr :: "nat option"
  calls :: "monitor_method list"
  messages :: nat
  pairs :: nat

datatype recvmsg = Frame bytes | No_frame errno

definition monitor_leave :: "monitor \<Rightarrow> (unit, monitor) outcome" where
  "monitor_leave m = Ret () (m\<lparr>pairs := pairs m - 1, socketPtr := None\<rparr>)"

definition init_message :: "monitor \<Rightarrow> monitor" where
  "init_message m = m\<lparr>messages := Suc (messages m)\<rparr>"

definition close_message :: "monitor \<Rightarrow> monitor" where
  "close_message m = m\<lparr>messages := messages m - 1\<rparr>"

text \<open>A receive that failed leaves the loop on \<open>ETERM\<close>; any other error is a failed assertion.\<close>

definition monitor_failed :: "errno \<Rightarrow> monitor \<Rightarrow> (unit, monitor) outcome" where
  "monitor_failed e m = (if e = ETERM then monitor_leave m else Throw Assertion_failed m)"

fun monitor_loop :: "(bytes \<Rightarrow> monitor_event) \<Rightarrow> recvmsg list \<Rightarrow> monitor \<Rightarrow> (unit, monitor) outcome" where
  "monitor_loop event_of [] m = Stuck (init_message m)"
| "monitor_loop event_of (No_frame e # rs) m = monitor_failed e (init_message m)"
| "monitor_loop event_of [Frame b] m = Stuck (init_message (init_message m))"
| "monitor_loop event_of (Frame b # No_frame e # rs) m = monitor_failed e (init_message (init_message m))"
| "monitor_loop event_of (Frame b # Frame address # rs) m =
     (let m1 = close_message (init_message (init_message m))
      in if event_of b = ZMQ_EVENT_MONITOR_STOPPED then monitor_leave m1
         else monitor_loop event_of rs (close_message (m1\<lparr>calls := calls m1 @ [dispatch (event_of b) (c_str address)]\<rparr>)))"

text \<open>
  \<open>monitor\<close>: the answers of \<open>zmq_socket_monitor\<close> (an error or none), of \<open>zmq_socket\<close> and of
  \<open>zmq_connect\<close>, then the loop. A socket that was moved into has no context pointer to read.
\<close>

definition run_monitor :: "(bytes \<Rightarrow> monitor_event) \<Rightarrow> sock \<Rightarrow> errno option \<Rightarrow> bool \<Rightarrow> bool \<Rightarrow> recvmsg list \<Rightarrow> monitor
    \<Rightarrow> (unit, monitor) outcome" where
  "run_monitor event_of socket refused pair connects rs m = (case refused of
       Some e \<Rightarrow> Throw (Zmq_error e) m
     | None \<Rightarrow> (let m1 = m\<lparr>socketPtr := ptr socket\<rparr> in case ctxptr socket of
           None \<Rightarrow> Throw Indeterminate_read m1
         | Some ctx \<Rightarrow>
             if \<not> pair then Throw Assertion_failed m1
             else (let m2 = m1\<lparr>pairs := Suc (pairs m1)\<rparr>
                   in if \<not> connects then Throw Assertion_failed m2
                      else monitor_loop event_of rs (m2\<lparr>calls := calls m2 @ [On_monitor_started]\<rparr>))))"

text \<open>\<open>abort\<close> stops the events of the socket that is being monitored, if there is one.\<close>

definition monitor_abort :: "monitor \<Rightarrow> nat list" where
  "monitor_abort m = (case socketPtr m of None \<Rightarrow> [] | Some h \<Rightarrow> [h])"

definition new_monitor :: monitor where
  "new_monitor = \<lparr>socketPtr = None, calls = [], messages = 0, pairs = 0\<rparr>"

section \<open>What a monitor promises\<close>

definition event_frames :: "(bytes \<times> bytes) list \<Rightarrow> recvmsg list" where
  "event_frames es = concat (map (\<lambda>(b, a). [Frame b, Frame a]) es)"

text \<open>The ways a monitor ends: the context is terminated, or the monitor is stopped.\<close>

definition monitor_ends :: "(bytes \<Rightarrow> monitor_event) \<Rightarrow> recvmsg list \<Rightarrow> bool" where
  "monitor_ends event_of rs \<longleftrightarrow> (\<exists>rs'. rs = No_frame ETERM # rs')
     \<or> (\<exists>b a rs'. rs = Frame b # Frame a # rs' \<and> event_of b = ZMQ_EVENT_MONITOR_STOPPED)"

lemma monitor_loop_ends:
  "monitor_ends event_of rs \<Longrightarrow>
     monitor_loop event_of rs m = Ret () (m\<lparr>messages := Suc (messages m), pairs := pairs m - 1, socketPtr := None\<rparr>)"
  by (auto simp: monitor_ends_def monitor_failed_def monitor_leave_def init_message_def close_message_def)

lemma monitor_loop_events:
  "\<forall>(b, a)\<in>set es. event_of b \<noteq> ZMQ_EVENT_MONITOR_STOPPED \<Longrightarrow>
     monitor_loop event_of (event_frames es @ rs) m =
     monitor_loop event_of rs (m\<lparr>calls := calls m @ map (\<lambda>(b, a). dispatch (event_of b) (c_str a)) es\<rparr>)"
proof (induction es arbitrary: m)
  case (Cons e es)
  then show ?case
    by (cases e) (simp add: event_frames_def init_message_def close_message_def)
qed (simp add: event_frames_def)

text \<open>
  C38: a monitor reports every event and leaks a message. When the monitored socket was
  constructed for a context and the C library serves the calls, the monitor calls its methods once
  for the start and once for each event, in the order of the events, until the context is
  terminated or the monitor is stopped; then it has closed its own socket and forgets the
  monitored one, but the message of the last event stays open. A socket that was moved has no
  context pointer: monitoring it reads one that nothing has assigned.
\<close>

theorem monitor_reports_every_event:
  assumes "\<forall>(b, a)\<in>set es. event_of b \<noteq> ZMQ_EVENT_MONITOR_STOPPED" "monitor_ends event_of rs" "ctxptr socket = Some ctx"
  shows "run_monitor event_of socket None True True (event_frames es @ rs) new_monitor =
      Ret () \<lparr>socketPtr = None, calls = On_monitor_started # map (\<lambda>(b, a). dispatch (event_of b) (c_str a)) es,
              messages = 1, pairs = 0\<rparr>
    \<and> (i \<noteq> j \<longrightarrow> (\<exists>y m. objs (socket_move i j socket p) i = Some y
          \<and> run_monitor event_of y None True True (event_frames es @ rs) new_monitor = Throw Indeterminate_read m))"
proof
  show "run_monitor event_of socket None True True (event_frames es @ rs) new_monitor =
      Ret () \<lparr>socketPtr = None, calls = On_monitor_started # map (\<lambda>(b, a). dispatch (event_of b) (c_str a)) es,
              messages = 1, pairs = 0\<rparr>"
    by (simp add: run_monitor_def assms(3) new_monitor_def monitor_loop_events[OF assms(1)] monitor_loop_ends[OF assms(2)])
qed (simp add: run_monitor_def socket_move_def Let_def)

theorem monitor_reports_every_event_witness:
  "run_monitor (\<lambda>b. if b = ''stop'' then ZMQ_EVENT_MONITOR_STOPPED else ZMQ_EVENT_ACCEPTED) \<lparr>ptr = Some 1, ctxptr = Some (Some 0)\<rparr>
      None True True [Frame ''ev'', Frame ''tcp://a'', Frame ''stop'', Frame []] new_monitor
    = Ret () \<lparr>socketPtr = None, calls = [On_monitor_started, On_event_accepted ''tcp://a''], messages = 1, pairs = 0\<rparr>"
proof -
  let ?e = "\<lambda>b. if b = ''stop'' then ZMQ_EVENT_MONITOR_STOPPED else ZMQ_EVENT_ACCEPTED"
  have "monitor_ends ?e [Frame ''stop'', Frame []]" by (simp add: monitor_ends_def)
  from conjunct1[OF monitor_reports_every_event[OF _ this, of "[(''ev'', ''tcp://a'')]"
      "\<lparr>ptr = Some 1, ctxptr = Some (Some 0)\<rparr>" "Some 0"]]
  show ?thesis by (simp add: event_frames_def c_str_def)
qed

end
