(* ===== verification/Zhelpers_Extra.thy ===== *)
theory Zhelpers_Extra
  imports Zhelpers "HOL-Library.Signed_Division"
begin

text \<open>
  The helpers of zhelpers.hpp that the programs of this repository do not call themselves: dumping
  a message, random identities, the version check, the clock, sleeping, and signals. What the
  generator, the clock and the library version yield are parameters.
\<close>

section \<open>Numbers as text\<close>

definition hex_digit :: "bool \<Rightarrow> nat \<Rightarrow> char" where
  "hex_digit uppercase d = (if d < 10 then digit_char d else char_of ((if uppercase then 55 else 87) + d))"

fun show_hex :: "bool \<Rightarrow> nat \<Rightarrow> string" where
  "show_hex uppercase n =
     (if n < 16 then [hex_digit uppercase n] else show_hex uppercase (n div 16) @ [hex_digit uppercase (n mod 16)])"

declare show_hex.simps [simp del]

text \<open>\<open>setfill('0')\<close> and \<open>setw\<close>.\<close>

definition pad :: "nat \<Rightarrow> string \<Rightarrow> string" where
  "pad width s = replicate (width - length s) (CHR ''0'') @ s"

lemma length_show_hex: "16 ^ k \<le> n \<Longrightarrow> n < 16 ^ Suc k \<Longrightarrow> length (show_hex u n) = Suc k"
proof (induction k arbitrary: n)
  case (Suc k)
  have "16 ^ k \<le> n div 16" "n div 16 < 16 ^ Suc k" using Suc.prems by (auto simp: less_eq_div_iff_mult_less_eq less_mult_imp_div_less)
  moreover have "\<not> n < 16" using Suc.prems(1) one_le_power[of "16 :: nat" k] by (simp add: not_less order_trans[rotated])
  ultimately show ?case using Suc.IH[of "n div 16"] by (subst show_hex.simps) simp
qed (simp add: show_hex.simps)

lemma length_show_hex_le: "n < 16 ^ Suc k \<Longrightarrow> length (show_hex u n) \<le> Suc k"
proof (induction k arbitrary: n)
  case (Suc k)
  show ?case
  proof (cases "n < 16")
    case False
    have "n div 16 < 16 ^ Suc k" using Suc.prems by (simp add: less_mult_imp_div_less)
    then show ?thesis using Suc.IH[of "n div 16"] False by (subst show_hex.simps) simp
  qed (simp add: show_hex.simps)
qed (simp add: show_hex.simps)

lemma length_pad [simp]: "length (pad k s) = max k (length s)"
  by (simp add: pad_def)

section \<open>Dumping a message\<close>

text \<open>A character is signed: from 128 on, its conversion to \<open>unsigned int\<close> is close to 2 to the 32.\<close>

definition unsigned_of :: "char \<Rightarrow> nat" where
  "unsigned_of c = (let v = of_char c in if v < 128 then v else 4294967040 + v)"

definition is_text :: "bytes \<Rightarrow> bool" where
  "is_text b = list_all (\<lambda>c. 32 \<le> (of_char c :: nat) \<and> (of_char c :: nat) \<le> 127) b"

text \<open>
  One part. The state of the output stream is kept: once a byte has been printed in hexadecimal,
  later numbers, the sizes included, are too.
\<close>

definition size_text :: "bool \<Rightarrow> nat \<Rightarrow> string" where
  "size_text hexed n = (if hexed then show_hex False n else show_nat n)"

definition dump_part :: "bool \<Rightarrow> bytes \<Rightarrow> string \<times> bool" where
  "dump_part hexed message =
     (let size = length message;
          head = ''['' @ pad 3 (size_text hexed size) @ '']''
      in if is_text message then (head @ message, hexed)
         else (head @ concat (map (\<lambda>c. pad 2 (show_hex False (unsigned_of c))) message), True))"

text \<open>\<open>ZMQ_RCVMORE\<close>: whether more parts follow the one received last.\<close>

definition rcvmore :: "'n \<Rightarrow> 'n event list \<Rightarrow> bool" where
  "rcvmore n t = (case find (\<lambda>e. case e of Received m b f \<Rightarrow> m = n | _ \<Rightarrow> False) (rev t) of
       Some (Received m b f) \<Rightarrow> f
     | _ \<Rightarrow> False)"

lemma getsockopt_inbox: "socket_getsockopt n opt w = Ret a w' \<Longrightarrow> inbox w' = inbox w"
  by (auto simp: socket_getsockopt_def bindM_Ret_iff throw_nonzero_def throwM_def returnM_def dest!: zmq_call_inbox split: if_splits)

function (sequential) dump_parts :: "'n \<Rightarrow> bool \<Rightarrow> (('n, 'm) net_scheme, string list \<times> bool) prog" where
  "dump_parts n hexed w =
     bindM (socket_recv n) (\<lambda>ret w1.
       let (line, hexed') = dump_part hexed (snd ret) in
       bindM (socket_getsockopt n ZMQ_RCVMORE) (\<lambda>_ w2.
         if \<not> rcvmore n (trace w2) then Ret ([line], hexed') w2
         else bindM (dump_parts n hexed') (\<lambda>(ls, h). returnM (line # ls, h)) w2) w1) w"
  by pat_completeness auto
termination
  by (relation "measure (\<lambda>(n, hexed, w). length (inbox w n))")
    (auto dest!: getsockopt_inbox socket_recv_shrinks)

definition s_dump :: "'n \<Rightarrow> bool \<Rightarrow> (('n, 'm) net_scheme, string list \<times> bool) prog" where
  "s_dump n hexed = bindM (dump_parts n hexed) (\<lambda>(ls, h). returnM (replicate 40 (CHR ''-'') # ls, h))"

declare dump_parts.simps [simp del]

text \<open>The lines of the parts of a message, and the state of the stream after them.\<close>

fun dump_lines :: "bool \<Rightarrow> bytes list \<Rightarrow> string list \<times> bool" where
  "dump_lines hexed [] = ([], hexed)"
| "dump_lines hexed (p # ps) =
     (let (line, h) = dump_part hexed p; (ls, h') = dump_lines h ps in (line # ls, h'))"

definition deliveries :: "bytes list \<Rightarrow> delivery list" where
  "deliveries ps = map (\<lambda>(b, f). Delivered b f) (multipart ps)"

lemma getsockopt_ok:
  assumes "api_ok w" shows "socket_getsockopt n opt w = Ret () (did n (Zmq_getsockopt opt) w)"
  unfolding socket_getsockopt_def by (rule call_nonzero_ok[OF assms]) simp

lemma rcvmore_received:
  "rcvmore n (trace (did n (Zmq_getsockopt opt) (took n (Delivered b f) ds w))) = f"
  by (simp add: rcvmore_def did_def took_def)

lemma dump_parts_ok:
  assumes "api_ok w" "ps \<noteq> []" "inbox w n = deliveries ps @ ds"
  shows "\<exists>w'. dump_parts n hexed w = Ret (dump_lines hexed ps) w' \<and> inbox w' n = ds"
  using assms
proof (induction ps arbitrary: w hexed rule: induct_list012)
  case (2 p)
  then show ?case
    by (subst dump_parts.simps)
      (simp add: deliveries_def prog_simps getsockopt_ok rcvmore_received split: prod.split)
next
  case (3 p q ps)
  let ?w1 = "took n (Delivered p True) (deliveries (q # ps) @ ds) w"
  let ?w2 = "did n (Zmq_getsockopt ZMQ_RCVMORE) ?w1"
  obtain line h where h: "dump_part hexed p = (line, h)" by fastforce
  have "inbox w n = Delivered p True # deliveries (q # ps) @ ds" using "3.prems"(3) by (simp add: deliveries_def)
  moreover obtain w' where "dump_parts n h ?w2 = Ret (dump_lines h (q # ps)) w'" "inbox w' n = ds"
    using "3.IH"(2)[of ?w2 h] "3.prems"(1) by auto
  ultimately show ?case
    using "3.prems"(1) h
    by (subst dump_parts.simps)
      (simp add: prog_simps getsockopt_ok rcvmore_received split_def Let_def del: dump_lines.simps(2), simp add: split_def Let_def)
qed simp

lemma dump_part_head:
  "\<exists>body. fst (dump_part hexed p) = ''['' @ pad 3 (size_text hexed (length p)) @ '']'' @ body"
  "snd (dump_part hexed p) = (hexed \<or> \<not> is_text p)"
  by (auto simp: dump_part_def Let_def)

lemma dump_lines_state: "length (fst (dump_lines hexed ps)) = length ps"
  "snd (dump_lines hexed ps) = (hexed \<or> \<not> list_all is_text ps)"
  by (induction ps arbitrary: hexed) (auto simp: split_def Let_def dump_part_head(2))

lemma dump_lines_head:
  "i < length ps \<Longrightarrow> \<exists>body. fst (dump_lines hexed ps) ! i = ''['' @ pad 3 (size_text (hexed \<or> \<not> list_all is_text (take i ps)) (length (ps ! i))) @ '']'' @ body"
proof (induction ps arbitrary: hexed i)
  case (Cons p ps)
  show ?case
  proof (cases i)
    case 0
    then show ?thesis using dump_part_head(1)[of hexed p] by (simp add: split_def Let_def)
  next
    case (Suc k)
    with Cons.prems Cons.IH[of k "snd (dump_part hexed p)"] show ?thesis
      by (auto simp: split_def Let_def dump_part_head(2))
  qed
qed simp

text \<open>
  C39: dumping prints one message. From a socket whose next parts form a multipart message the
  helper reads exactly these parts, leaves what follows, and prints a rule and one line for each
  part; the number in front of a part is decimal only as long as no part before it, nor the
  stream on entry, was printed in hexadecimal, and a byte from 128 on takes eight digits.
\<close>

theorem s_dump_prints_message:
  assumes "api_ok w" "ps \<noteq> []" "inbox w n = deliveries ps @ ds"
  shows "(\<exists>w' ls h. s_dump n hexed w = Ret (ls, h) w' \<and> inbox w' n = ds \<and> length ls = length ps + 1
      \<and> tl ls = fst (dump_lines hexed ps) \<and> h = (hexed \<or> \<not> list_all is_text ps)
      \<and> (\<forall>i<length ps. \<exists>body. tl ls ! i = ''['' @ pad 3 (size_text (hexed \<or> \<not> list_all is_text (take i ps)) (length (ps ! i))) @ '']'' @ body))
    \<and> (128 \<le> (of_char c :: nat) \<longrightarrow> length (pad 2 (show_hex False (unsigned_of c))) = 8)"
proof (intro conjI impI)
  obtain w' where w': "dump_parts n hexed w = Ret (dump_lines hexed ps) w'" "inbox w' n = ds"
    using dump_parts_ok[OF assms] by blast
  then have "s_dump n hexed w = Ret (replicate 40 (CHR ''-'') # fst (dump_lines hexed ps), snd (dump_lines hexed ps)) w'"
    by (simp add: s_dump_def bindM_Ret split_def returnM_def)
  with w'(2) show "\<exists>w' ls h. s_dump n hexed w = Ret (ls, h) w' \<and> inbox w' n = ds \<and> length ls = length ps + 1
      \<and> tl ls = fst (dump_lines hexed ps) \<and> h = (hexed \<or> \<not> list_all is_text ps)
      \<and> (\<forall>i<length ps. \<exists>body. tl ls ! i = ''['' @ pad 3 (size_text (hexed \<or> \<not> list_all is_text (take i ps)) (length (ps ! i))) @ '']'' @ body)"
    using dump_lines_head[of _ ps hexed]
    by (intro exI[of _ w'] exI[of _ "replicate 40 (CHR ''-'') # fst (dump_lines hexed ps)"] exI[of _ "snd (dump_lines hexed ps)"])
      (simp add: dump_lines_state)
  assume "128 \<le> (of_char c :: nat)"
  moreover have "(of_char c :: nat) < 256" by simp
  ultimately show "length (pad 2 (show_hex False (unsigned_of c))) = 8"
    using length_show_hex[of 7 "unsigned_of c" False] by (simp add: unsigned_of_def Let_def)
qed

section \<open>Identities\<close>

text \<open>
  A number as a \<open>float\<close>, which keeps 24 binary digits and rounds to the nearest, ties to even.
\<close>

fun float_exp :: "nat \<Rightarrow> nat" where
  "float_exp n = (if n < 16777216 then 0 else Suc (float_exp (n div 2)))"

declare float_exp.simps [simp del]

definition to_float :: "nat \<Rightarrow> nat" where
  "to_float n = (let e = float_exp n; u = 2 ^ e; q = n div u; r = n mod u
     in (if 2 * r > u \<or> (2 * r = u \<and> odd q) then q + 1 else q) * u)"

definition rand_max :: nat where
  "rand_max = 2147483647"

text \<open>
  \<open>within\<close>: the product is a \<open>float\<close>, the division by 2 to the 31 is exact in \<open>double\<close>.
\<close>

definition within_num :: "nat \<Rightarrow> nat \<Rightarrow> nat" where
  "within_num num random = to_float (to_float num * to_float random) div (rand_max + 1)"

definition id_text :: "nat \<Rightarrow> nat \<Rightarrow> string" where
  "id_text random1 random2 =
     pad 4 (show_hex True (within_num 0x10000 random1)) @ ''-'' @ pad 4 (show_hex True (within_num 0x10000 random2))"

definition s_set_id :: "'n \<Rightarrow> nat \<Rightarrow> nat \<Rightarrow> (('n, 'm) net_scheme, string) prog" where
  "s_set_id n random1 random2 =
     bindM (socket_setsockopt n ZMQ_IDENTITY (id_text random1 random2)) (\<lambda>_. returnM (id_text random1 random2))"

lemma float_exp_le: "n < 2 ^ (24 + k) \<Longrightarrow> float_exp n \<le> k"
proof (induction k arbitrary: n)
  case 0
  then show ?case by (simp add: float_exp.simps)
next
  case (Suc k)
  then have "n div 2 < 2 ^ (24 + k)" by (intro less_mult_imp_div_less) (simp add: power_add)
  with Suc.IH[of "n div 2"] show ?case by (subst float_exp.simps) simp
qed

lemma float_exp_bound: "n < 2 ^ (24 + float_exp n)"
proof (induction n rule: float_exp.induct)
  case (1 n)
  show ?case
  proof (cases "n < 16777216")
    case False
    with 1 have "n div 2 < 2 ^ (24 + float_exp (n div 2))" by simp
    then have "n < 2 * 2 ^ (24 + float_exp (n div 2))" by linarith
    then show ?thesis using False by (subst float_exp.simps) (simp add: power_add)
  qed (simp add: float_exp.simps)
qed

lemma float_exp_7:
  assumes "1073741824 \<le> n" "n < 2147483648" shows "float_exp n = 7"
proof -
  have "float_exp n \<le> 7" using float_exp_le[of n 7] assms(2) by simp
  moreover have "\<not> float_exp n \<le> 6"
  proof
    assume "float_exp n \<le> 6"
    then have "(2 :: nat) ^ (24 + float_exp n) \<le> 2 ^ (24 + 6)" by (intro power_increasing) simp_all
    with float_exp_bound[of n] assms(1) show False by simp
  qed
  ultimately show ?thesis by simp
qed

lemma to_float_form: obtains q k where "to_float n = q * 2 ^ k" "q < 2 ^ 24"
proof -
  let ?e = "float_exp n"
  have "n div 2 ^ ?e < 2 ^ 24"
    using float_exp_bound[of n] by (intro less_mult_imp_div_less) (simp add: power_add)
  moreover obtain q where q: "to_float n = q * 2 ^ ?e" "q = n div 2 ^ ?e \<or> q = n div 2 ^ ?e + 1"
    by (auto simp: to_float_def Let_def)
  ultimately consider "q < 2 ^ 24" | "q = 2 ^ 24" by linarith
  then show thesis
  proof cases
    case 2
    with q(1) have "to_float n = 2 ^ 23 * 2 ^ Suc ?e" by simp
    then show thesis by (rule that) simp
  qed (rule that[OF q(1)])
qed

lemma to_float_exact: "n = q * 2 ^ k \<Longrightarrow> q < 2 ^ 24 \<Longrightarrow> to_float n = n"
proof -
  assume n: "n = q * 2 ^ k" "q < 2 ^ 24"
  then have "n < 2 ^ (24 + k)" by (simp add: power_add)
  then have "float_exp n \<le> k" by (rule float_exp_le)
  then have "2 ^ float_exp n dvd n" using n(1) by (simp add: le_imp_power_dvd)
  then show "to_float n = n" by (simp add: to_float_def Let_def)
qed

lemma to_float_le:
  assumes "n < 2 ^ (24 + k)" shows "to_float n \<le> 2 ^ (24 + k)"
proof -
  let ?e = "float_exp n"
  have e: "?e \<le> k" using assms by (rule float_exp_le)
  then have p: "(2 :: nat) ^ (24 + k) = 2 ^ (24 + k - ?e) * 2 ^ ?e" by (simp flip: power_add)
  have "n div 2 ^ ?e < 2 ^ (24 + k - ?e)" using assms by (intro less_mult_imp_div_less) (simp flip: p)
  then have "(n div 2 ^ ?e + 1) * 2 ^ ?e \<le> 2 ^ (24 + k)" unfolding p by (intro mult_le_mono1) simp
  moreover have "to_float n \<le> (n div 2 ^ ?e + 1) * 2 ^ ?e" by (simp add: to_float_def Let_def)
  ultimately show ?thesis by (rule order_trans[rotated])
qed

text \<open>The draws that become 2 to the 31 as a \<open>float\<close>.\<close>

lemma to_float_draw:
  assumes "random \<le> rand_max"
  shows "to_float random \<le> 2147483648" "to_float random = 2147483648 \<longleftrightarrow> rand_max - 64 < random"
proof -
  show "to_float random \<le> 2147483648" using to_float_le[of random 7] assms by (simp add: rand_max_def)
  show "to_float random = 2147483648 \<longleftrightarrow> rand_max - 64 < random"
  proof (cases "random < 1073741824")
    case True
    then show ?thesis using to_float_le[of random 6] by (simp add: rand_max_def)
  next
    case False
    define q r where "q = random div 128" and "r = random mod 128"
    have e: "float_exp random = 7" using False assms by (intro float_exp_7) (simp_all add: rand_max_def)
    have f: "to_float random = (if 128 < 2 * r \<or> 2 * r = 128 \<and> odd q then q + 1 else q) * 128"
      by (simp add: to_float_def Let_def e q_def r_def)
    have r: "random = 128 * q + r" "r < 128" by (simp_all add: q_def r_def)
    with assms have "q \<le> 16777215" by (simp add: rand_max_def)
    with f r show ?thesis
      by (cases "q = 16777215") (auto simp: rand_max_def)
  qed
qed

lemma within_num_float:
  assumes "random \<le> rand_max" shows "within_num 0x10000 random = to_float random div 32768"
proof -
  obtain q k where qk: "to_float random = q * 2 ^ k" "q < 2 ^ 24" by (rule to_float_form)
  have "to_float 0x10000 = 0x10000" by (rule to_float_exact[of _ 1 16]) simp_all
  moreover have "to_float (0x10000 * to_float random) = 0x10000 * to_float random"
    using qk by (intro to_float_exact[of _ q "k + 16"]) (simp_all add: power_add)
  ultimately show ?thesis by (simp add: within_num_def rand_max_def)
qed

text \<open>
  C40: \<open>within\<close> can return its bound. For 0x10000 and a draw of the generator the result is at most
  0x10000, and it is 0x10000, not below it, exactly for the 64 largest draws, which the conversion
  to \<open>float\<close> rounds up; the half of the identity that is printed from it then has five digits
  instead of four.
\<close>

theorem within_reaches_bound:
  assumes "random \<le> rand_max"
  shows "within_num 0x10000 random \<le> 0x10000
    \<and> (within_num 0x10000 random = 0x10000 \<longleftrightarrow> rand_max - 64 < random)
    \<and> length (pad 4 (show_hex True (within_num 0x10000 random))) = (if rand_max - 64 < random then 5 else 4)"
proof -
  let ?w = "within_num 0x10000 random"
  have le: "?w \<le> 0x10000" and eq: "?w = 0x10000 \<longleftrightarrow> rand_max - 64 < random"
    using to_float_draw[OF assms] by (auto simp: within_num_float[OF assms])
  moreover have "length (pad 4 (show_hex True ?w)) = 5" if "?w = 0x10000"
    using length_show_hex[of 4 ?w True] that by simp
  moreover have "length (pad 4 (show_hex True ?w)) = 4" if "?w \<noteq> 0x10000"
    using length_show_hex_le[of ?w 3 True] le that by simp
  ultimately show ?thesis by simp
qed

section \<open>Version, clock and sleep\<close>

text \<open>What is printed before the program exits, or nothing when it goes on.\<close>

definition s_version :: "int \<Rightarrow> int \<Rightarrow> int \<Rightarrow> string" where
  "s_version major minor patch =
     ''Current 0MQ version is '' @ to_string major @ ''.'' @ to_string minor @ ''.'' @ to_string patch"

definition s_version_assert :: "int \<Rightarrow> int \<Rightarrow> int \<Rightarrow> int \<Rightarrow> string list option" where
  "s_version_assert major minor want_major want_minor =
     (if major < want_major \<or> (major = want_major \<and> minor < want_minor)
      then Some [''Current 0MQ version is '' @ to_string major @ ''.'' @ to_string minor,
        ''Application needs at least '' @ to_string want_major @ ''.'' @ to_string want_minor @ '' - cannot continue'']
      else None)"

lemma s_version_assert_iff:
  "s_version_assert major minor want_major want_minor = None \<longleftrightarrow> (want_major, want_minor) \<in> {(a, b). a < major \<or> a = major \<and> b \<le> minor}"
  by (auto simp: s_version_assert_def)

text \<open>Arithmetic of \<open>long\<close>; \<open>None\<close> when it overflows. Division truncates towards zero.\<close>

definition s_clock :: "int \<Rightarrow> int \<Rightarrow> int option" where
  "s_clock tv_sec tv_usec =
     (let s = tv_sec * 1000; t = s + tv_usec sdiv 1000
      in if long_min \<le> s \<and> s \<le> long_max \<and> long_min \<le> t \<and> t \<le> long_max then Some t else None)"

definition s_sleep :: "int \<Rightarrow> int \<times> int" where
  "s_sleep msecs = (msecs sdiv 1000, (msecs smod 1000) * 1000000)"

text \<open>
  A sleep of a number of milliseconds that is not negative asks for exactly that time in a valid
  form, and the multiplication stays in the range of \<open>int\<close>; a negative one that is not a whole
  number of seconds asks for negative nanoseconds, which \<open>nanosleep\<close> refuses, so it does not
  sleep at all.
\<close>

lemma s_sleep_exact:
  assumes "s_sleep msecs = (sec, nsec)"
  shows "int_range nsec" "sec * 1000000000 + nsec = msecs * 1000000" "0 \<le> msecs \<Longrightarrow> 0 \<le> nsec \<and> nsec < 1000000000"
proof -
  have sec: "sec = msecs sdiv 1000" and nsec: "nsec = (msecs smod 1000) * 1000000"
    using assms by (simp_all add: s_sleep_def)
  have range: "- 999 \<le> msecs smod 1000" "msecs smod 1000 \<le> 999"
    using smod_int_range[of 1000 msecs] by auto
  then show "int_range nsec" by (simp add: nsec int_range_def int_min_def int_max_def)
  have "msecs sdiv 1000 * 1000 + msecs smod 1000 = msecs" by (rule sdiv_mult_smod_eq)
  then show "sec * 1000000000 + nsec = msecs * 1000000" by (simp add: sec nsec)
  show "0 \<le> nsec \<and> nsec < 1000000000" if "0 \<le> msecs"
    using range smod_mod_positive[of msecs 1000] that by (simp add: nsec)
qed

section \<open>Signals\<close>

record signals =
  s_interrupted :: bool
  handled :: "int set"

definition s_signal_handler :: "int \<Rightarrow> signals \<Rightarrow> signals" where
  "s_signal_handler signal_value g = g\<lparr>s_interrupted := True\<rparr>"

text \<open>\<open>SIGINT\<close> is 2 and \<open>SIGTERM\<close> is 15.\<close>

definition s_catch_signals :: "signals \<Rightarrow> signals" where
  "s_catch_signals g = g\<lparr>handled := handled g \<union> {2, 15}\<rparr>"

text \<open>Delivery of a signal that ends a program that does not handle it.\<close>

definition deliver_signal :: "int \<Rightarrow> signals \<Rightarrow> fault + signals" where
  "deliver_signal n g = (if n \<in> handled g then Inr (s_signal_handler n g) else Inl Terminated)"

lemma caught_signals: "n \<in> {2, 15} \<Longrightarrow> \<exists>h. deliver_signal n (s_catch_signals g) = Inr h \<and> s_interrupted h"
  by (auto simp: deliver_signal_def s_catch_signals_def s_signal_handler_def)

section \<open>Runs\<close>

text \<open>A byte that is no text, then a text of sixteen characters, announced in hexadecimal.\<close>

definition demo_parts :: "bytes list" where
  "demo_parts = [[CHR 0x01], replicate 16 (CHR ''a'')]"

definition demo_net :: "unit net" where
  "demo_net = \<lparr>inbox = (\<lambda>_. deliveries demo_parts), api = serving_api, live = (\<lambda>_. True), trace = []\<rparr>"

theorem s_dump_prints_message_witness:
  "\<exists>w' ls. s_dump () False demo_net = Ret (ls, True) w' \<and> length ls = 3
     \<and> (\<exists>body. tl ls ! 1 = ''[010]'' @ body)"
proof -
  have "api_ok demo_net" "demo_parts \<noteq> []" "inbox demo_net () = deliveries demo_parts @ []"
    by (simp_all add: demo_net_def demo_parts_def api_ok_serving)
  from conjunct1[OF s_dump_prints_message[OF this, of False]]
  obtain w' ls h where r: "s_dump () False demo_net = Ret (ls, h) w'" "length ls = length demo_parts + 1"
    "h = (False \<or> \<not> list_all is_text demo_parts)"
    "\<forall>i<length demo_parts. \<exists>body. tl ls ! i = ''['' @ pad 3 (size_text (False \<or> \<not> list_all is_text (take i demo_parts))
        (length (demo_parts ! i))) @ '']'' @ body" by blast
  have n: "length demo_parts = 2" and b: "\<not> is_text [CHR 0x01]" by (simp_all add: demo_parts_def is_text_def)
  have "pad 3 (size_text True 16) = ''010''"
    by (simp add: size_text_def show_hex.simps pad_def hex_digit_def digit_char_def char_of_def bit_0)
  with r(4)[rule_format, of 1] n b have "\<exists>body. tl ls ! 1 = ''[010]'' @ body" by (simp add: demo_parts_def)
  with r n b show ?thesis by (simp add: demo_parts_def)
qed

theorem within_reaches_bound_witness:
  "within_num 0x10000 2147483600 = 0x10000 \<and> within_num 0x10000 1000 \<noteq> 0x10000"
  using within_reaches_bound[of 2147483600] within_reaches_bound[of 1000] by (simp add: rand_max_def)

end
