(* ===== verification/System.thy ===== *)
theory System
  imports Results Worker_Props "HOL-Library.Sublist" "HOL-Library.Multiset"
begin

text \<open>
  The controller, the listeners and the client processes together: what the controller publishes
  reaches the others through their subscriptions, and what they push reaches the controller's sink. ZeroMQ
  delivers the parts of a message together; it drops what was published before a subscription
  took effect, and the messages of different senders arrive in any order.
\<close>

section \<open>What is published and heard\<close>

definition publication :: "config \<Rightarrow> nat \<Rightarrow> nat \<Rightarrow> bytes list list" where
  "publication c a b = replicate a [''HELLO_LISTENER''] @ [start_processes_request c]
     @ replicate b [''HELLO_SOCKET''] @ [start_websockets_request c]"

definition subscribed_to :: "bytes list \<Rightarrow> bytes list \<Rightarrow> bool" where
  "subscribed_to topics m \<longleftrightarrow> list_ex (\<lambda>t. prefix t (hd m)) topics"

definition heard_from :: "nat \<Rightarrow> bytes list \<Rightarrow> bytes list list \<Rightarrow> bytes list list" where
  "heard_from j topics ms = drop j (filter (subscribed_to topics) ms)"

text \<open>The subscriptions of a client process (\<open>connect_worker\<close>).\<close>

definition worker_topics :: "bytes list" where
  "worker_topics = [''StartWebsockets'', ''HELLO_SOCKET'']"

lemma worker_hears:
  "filter (subscribed_to worker_topics) (publication c a b) = replicate b [''HELLO_SOCKET''] @ [start_websockets_request c]"
  by (simp add: publication_def subscribed_to_def worker_topics_def start_processes_request_def
      start_websockets_request_def)

text \<open>An order of the images of a multiset comes from an order of the multiset.\<close>

lemma reorder: "mset ys = image_mset f (mset xs) \<Longrightarrow> \<exists>xs'. ys = map f xs' \<and> mset xs' = mset xs"
proof (induction ys arbitrary: xs)
  case (Cons y ys)
  then obtain x M where x: "mset xs = add_mset x M" "y = f x" "mset ys = image_mset f M"
    by (metis msed_map_invR mset.simps(2))
  obtain zs where "M = mset zs" by (metis ex_mset)
  with Cons.IH[of zs] x obtain xs' where "ys = map f xs'" "mset xs' = M" by auto
  with x show ?case by (intro exI[of _ "x # xs'"]) simp
qed simp

section \<open>The client processes\<close>

text \<open>
  A process: its arguments, its world, and the clients it will have run with the latencies each
  has measured. It is ready when the library serves it, it has joined in time to hear a hello,
  its synchronisation request is answered, and its clients end.
\<close>

type_synonym process = "string list \<times> wrk \<times> (client \<times> rat list) list"

definition process_ready :: "config \<Rightarrow> acc \<Rightarrow> bytes list list \<Rightarrow> process \<Rightarrow> bool" where
  "process_ready c A published P \<longleftrightarrow> (case P of (argv, w, ps) \<Rightarrow>
     api_ok w \<and> sent Sink (trace w) = [] \<and> sent Syncclient (trace w) = []
     \<and> (\<exists>j. [''HELLO_SOCKET''] \<in> set (heard_from j worker_topics published)
          \<and> inbox w Subscriber = concat (map deliver (heard_from j worker_topics published)))
     \<and> (case inbox w Syncclient of Delivered r g # rs \<Rightarrow> True | _ \<Rightarrow> False)
     \<and> clients_end c (client_run False (new_client (worker_name argv) c)) (map fst ps) w \<and> list_all (measured A) ps)"

definition process_pushes :: "acc \<Rightarrow> process \<Rightarrow> bytes list list" where
  "process_pushes A P = (case P of (argv, w, ps) \<Rightarrow> messages_of (sent Sink (trace (final_world (worker_main A argv w)))))"

definition process_clients :: "process \<Rightarrow> (client \<times> rat list) list" where
  "process_clients P = snd (snd P)"

lemma deliver_hello: "concat (map deliver (replicate n [u])) = replicate n (Delivered u False)"
  by (induction n) (simp_all add: deliver_def)

lemma start_request_member: "[u] \<noteq> start_websockets_request c"
  by (simp add: start_websockets_request_def)

lemma process_pushes_results:
  assumes "process_ready c A (publication c a b) P" "config_ok c"
  shows "process_pushes A P = map (result_message A \<circ> fst) (process_clients P)"
proof -
  obtain argv w ps where P: "P = (argv, w, ps)" by (cases P)
  with assms obtain j r g rs where
    j: "[''HELLO_SOCKET''] \<in> set (heard_from j worker_topics (publication c a b))"
      "inbox w Subscriber = concat (map deliver (heard_from j worker_topics (publication c a b)))"
    and p: "api_ok w" "sent Sink (trace w) = []" "sent Syncclient (trace w) = []"
      "inbox w Syncclient = Delivered r g # rs"
      "clients_end c (client_run False (new_client (worker_name argv) c)) (map fst ps) w"
    by (auto simp: process_ready_def split: list.splits delivery.splits)
  have "j < b"
  proof (rule ccontr)
    assume "\<not> j < b"
    with j(1) show False
      by (auto simp: heard_from_def worker_hears start_request_member dest: in_set_dropD)
  qed
  then obtain k where k: "b - j = Suc k" by (metis Suc_diff_Suc)
  with \<open>j < b\<close> have h: "heard_from j worker_topics (publication c a b) = replicate (Suc k) [''HELLO_SOCKET''] @ [start_websockets_request c]"
    by (simp add: heard_from_def worker_hears drop_append)
  have "inbox w Subscriber = [] @ Delivered ''HELLO_SOCKET'' False # replicate k (Delivered ''HELLO_SOCKET'' False)
      @ deliver (start_websockets_request c) @ []"
    unfolding j(2) h by (simp add: deliver_hello) (simp add: deliver_def)
  from worker_main_run[OF p(1) assms(2) _ _ this p(4,5,2,3), of A] obtain w' where
    "worker_main A argv w = Ret 0 w'" "messages_of (sent Sink (trace w')) = map (result_message A) (map fst ps)"
    by (auto simp: list_all_iff)
  then show ?thesis by (simp add: process_pushes_def process_clients_def P)
qed

section \<open>The listeners\<close>

text \<open>
  A listener: its arguments, its random number, its world and the answers of \<open>waitpid\<close> for the
  processes of the request. It hears one iteration and the end of the experiment.
\<close>

definition listener_topics :: "bytes list" where
  "listener_topics = [''StartProcesses'', ''END'', ''HELLO_LISTENER'']"

type_synonym listener = "string list \<times> int \<times> lst \<times> wait_answer list"

definition listener_ready :: "config \<Rightarrow> bytes list list \<Rightarrow> listener \<Rightarrow> bool" where
  "listener_ready c published L \<longleftrightarrow> (case L of (argv, r, w, ws) \<Rightarrow>
     api_ok w \<and> (\<forall>x. launches w x) \<and> sent Sink (trace w) = [] \<and> sent Syncclient (trace w) = []
     \<and> (\<exists>j. [''HELLO_LISTENER''] \<in> set (heard_from j listener_topics published)
          \<and> inbox w Subscriber = concat (map deliver (heard_from j listener_topics (published @ [[''END'']]))))
     \<and> (case inbox w Syncclient of Delivered r g # rs \<Rightarrow> True | _ \<Rightarrow> False)
     \<and> (\<exists>later. waits w = ws @ later) \<and> reaps (processes c) ws)"

definition listener_pushes :: "listener \<Rightarrow> bytes list list" where
  "listener_pushes L = (case L of (argv, r, w, ws) \<Rightarrow>
     messages_of (sent Sink (trace (final_world (listener_main argv r w)))))"

definition listener_exits :: "listener \<Rightarrow> int list" where
  "listener_exits L = exits (snd (snd (snd L)))"

lemma listener_hears:
  "filter (subscribed_to listener_topics) (publication c a b) = replicate a [''HELLO_LISTENER''] @ [start_processes_request c]"
  by (simp add: publication_def subscribed_to_def listener_topics_def start_processes_request_def
      start_websockets_request_def)

lemma listener_hears_end: "subscribed_to listener_topics [''END'']"
  by (simp add: subscribed_to_def listener_topics_def)

lemma listener_pushes_exits:
  assumes "listener_ready c (publication c a b) L" "int_range (processes c)"
  shows "listener_pushes L = map finished_message (listener_exits L) \<and> int (length (listener_exits L)) = processes c"
proof -
  obtain argv r w ws where L: "L = (argv, r, w, ws)" by (metis prod_cases4)
  with assms(1) obtain j x g rs later where
    j: "[''HELLO_LISTENER''] \<in> set (heard_from j listener_topics (publication c a b))"
      "inbox w Subscriber = concat (map deliver (heard_from j listener_topics (publication c a b @ [[''END'']])))"
    and p: "api_ok w" "\<And>x. launches w x" "sent Sink (trace w) = []" "sent Syncclient (trace w) = []"
      "inbox w Syncclient = Delivered x g # rs" "waits w = ws @ later" "reaps (processes c) ws"
    by (auto simp: listener_ready_def split: list.splits delivery.splits)
  have "j < a"
  proof (rule ccontr)
    assume "\<not> j < a"
    with j(1) show False
      by (auto simp: heard_from_def listener_hears start_processes_request_def dest: in_set_dropD)
  qed
  then obtain k where k: "a - j = Suc k" by (metis Suc_diff_Suc)
  with \<open>j < a\<close> have h: "heard_from j listener_topics (publication c a b @ [[''END'']])
      = replicate (Suc k) [''HELLO_LISTENER''] @ [start_processes_request c, [''END'']]"
    by (simp add: heard_from_def listener_hears listener_hears_end drop_append)
  let ?p = "[(k, processes c, ws)]"
  have "inbox w Subscriber = [] @ Delivered ''HELLO_LISTENER'' False # plan_requests ?p @ Delivered ''END'' False # []"
    unfolding j(2) h
    by (simp add: deliver_hello plan_requests_def start_processes_request_def) (simp add: deliver_def)
  moreover have "plan_ok ?p" "waits w = plan_waits ?p @ later"
    using assms(2) p(6,7) by (simp_all add: plan_ok_def plan_waits_def)
  ultimately obtain w' where "listener_main argv r w = Ret 0 w'" "messages_of (sent Sink (trace w')) = plan_reports ?p"
    using listener_main_run[OF p(1,2), of "[]" ?p "[]" x g rs later argv r] p(3-5) by auto
  then show ?thesis
    using p(7) by (simp add: listener_pushes_def listener_exits_def L plan_reports_def reaps_def)
qed

text \<open>The ends that all listeners report, in the order in which they arrive.\<close>

lemma ends_reordered:
  assumes "list_all (listener_ready c (publication c a b)) Ls" "int_range (processes c)"
    and "mset fs = mset (concat (map listener_pushes Ls))"
  shows "\<exists>sts. fs = map finished_message sts \<and> int (length sts) = int (length Ls) * processes c"
proof -
  have L: "listener_pushes L = map finished_message (listener_exits L)" "int (length (listener_exits L)) = processes c"
    if "L \<in> set Ls" for L
    using listener_pushes_exits[of c a b L] assms(1,2) that by (simp_all add: list_all_iff)
  have "map listener_pushes Ls = map (map finished_message) (map listener_exits Ls)" using L(1) by simp
  then have "concat (map listener_pushes Ls) = map finished_message (concat (map listener_exits Ls))"
    by (simp only: map_concat)
  then have "mset fs = image_mset finished_message (mset (concat (map listener_exits Ls)))" by (simp only: assms(3) mset_map)
  then obtain sts where sts: "fs = map finished_message sts" "mset sts = mset (concat (map listener_exits Ls))"
    using reorder by blast
  have "int (length (concat (map listener_exits Ls))) = int (length Ls) * processes c"
    using L(2) by (induction Ls) (auto simp: distrib_right)
  with sts show ?thesis using mset_eq_length[OF sts(2)] by auto
qed

section \<open>The sink\<close>

lemma deliver_result: "list_all (measured A) ps \<Longrightarrow>
    concat (map deliver (map (result_message A \<circ> fst) ps)) = concat (map frames (map (\<lambda>p. Result_msg (line_of A p)) ps))"
  by (induction ps) (auto simp: deliver_def result_message_def line_of_def)

lemma deliver_finished:
  "concat (map deliver (map finished_message sts)) = concat (map frames (map Finished_msg (map to_string sts)))"
  by (induction sts) (auto simp: deliver_def finished_message_def)

lemma sum_list_mset:
  fixes f :: "'a \<Rightarrow> 'b :: comm_monoid_add"
  shows "mset ps = mset qs \<Longrightarrow> sum_list (map f ps) = sum_list (map f qs)"
  by (metis mset_map sum_mset_sum_list)

lemma mean_of_mset: "mset xs = mset ys \<Longrightarrow> mean_of xs = mean_of ys"
  by (metis mean_of_def mset_eq_length sum_mset_sum_list)

lemma latencies_mset: "mset ps = mset qs \<Longrightarrow> mset (concat (map snd ps)) = mset (concat (map snd qs))"
  using sum_list_mset[of ps qs "mset \<circ> snd"] by (simp add: mset_concat)

lemma total_samples_mset: "mset ps = mset qs \<Longrightarrow> total_samples ps = total_samples qs"
  unfolding total_samples_def by (rule sum_list_mset)

text \<open>The messages of all processes, in the order in which they arrive, are those of their clients.\<close>

lemma results_reordered:
  assumes "list_all (process_ready c A (publication c a b)) Ps" "config_ok c"
    and "mset ms = mset (concat (map (process_pushes A) Ps))"
  shows "\<exists>qs. ms = map (result_message A \<circ> fst) qs \<and> mset qs = mset (concat (map process_clients Ps))"
proof (rule reorder)
  have "map (process_pushes A) Ps = map (map (result_message A \<circ> fst)) (map process_clients Ps)"
    using assms(1) process_pushes_results[OF _ assms(2)] by (auto simp: list_all_iff)
  then have "concat (map (process_pushes A) Ps) = map (result_message A \<circ> fst) (concat (map process_clients Ps))"
    by (simp only: map_concat)
  then show "mset ms = image_mset (result_message A \<circ> fst) (mset (concat (map process_clients Ps)))"
    by (simp only: assms(3) mset_map)
qed

lemma processes_measured:
  "list_all (process_ready c A published) Ps \<Longrightarrow> list_all (measured A) (concat (map process_clients Ps))"
  by (auto simp: list_all_iff process_ready_def process_clients_def)

lemma measured_reordered:
  assumes "mset qs = mset ps" "list_all (measured A) ps" "ps \<noteq> []" "list_all (\<lambda>p. \<forall>x\<in>set (snd p). 0 \<le> x) ps"
    and "int_range (total_samples ps)"
  shows "list_all (measured A) qs" "qs \<noteq> []" "list_all (\<lambda>p. \<forall>x\<in>set (snd p). 0 \<le> x) qs" "int_range (total_samples qs)"
  using assms mset_eq_setD[OF assms(1)] total_samples_mset[OF assms(1)] by (auto simp: list_all_iff)

lemma succeeded_count: "length (filter (succeeded c) ps) + length (filter (\<lambda>p. \<not> succeeded c p) ps) = length ps"
  by (rule sum_length_filter_compl)

lemma collect_ends:
  assumes "inbox w Receiver = lead @ concat (map frames (map Finished_msg sts)) @ ds"
    and "lead = [] \<or> lead = [Delivered [] False]" "clientsFinished t + clientsDied t + int (length sts) = n"
  shows "\<exists>t' w'. collect F c n t w = Ret t' w' \<and> clientsFinished t' + clientsDied t' = n
    \<and> connectionsSucceeded t' = connectionsSucceeded t \<and> connectionsDied t' = connectionsDied t
    \<and> resultsReceived t' = resultsReceived t
    \<and> inbox w' Receiver = (if sts = [] then lead else [Delivered [] False]) @ ds"
  using assms
proof (induction sts arbitrary: w lead t)
  case Nil
  then show ?case using collect_done[of t n F c w] by simp
next
  case (Cons st sts)
  let ?es = "concat (map frames (map Finished_msg sts)) @ ds"
  have lt: "clientsFinished t + clientsDied t < n" using Cons.prems(3) by simp
  obtain w0 where w0: "collect F c n t w = collect F c n t w0" "inbox w0 Receiver = frames (Finished_msg st) @ ?es"
    using Cons.prems(1,2) collect_steps(2)[OF lt, of w False "frames (Finished_msg st) @ ?es" F c] by auto
  obtain w1 where w1: "collect F c n t w0 = collect F c n (add_finished st t) w1"
    "inbox w1 = (inbox w0)(Receiver := Delivered [] False # ?es)"
    using collect_steps(3)[OF lt w0(2), of F c] by blast
  have "clientsFinished (add_finished st t) + clientsDied (add_finished st t) + int (length sts) = n"
    using Cons.prems(3) by (simp add: add_finished_def)
  from Cons.IH[of w1 "[Delivered [] False]", OF _ _ this] w1(2) show ?case
    by (simp add: w0(1) w1(1) add_finished_def split: if_splits)
qed

section \<open>A run\<close>

text \<open>One machine, one process, one client that sends one message with a latency of 2.\<close>

definition small_process :: process where
  "small_process = ([''listener-websocket'', ''Client1-0''],
     wrk_world\<lparr>inbox := (inbox wrk_world)(Subscriber := concat (map deliver (heard_from 0 worker_topics (publication small_config 1 1))))\<rparr>,
     [(small_end, [2])])"

lemma small_process_ready: "process_ready small_config exact_acc (publication small_config 1 1) small_process"
proof -
  have "measured exact_acc (small_end, [2])"
    by (simp add: measured_def small_end_def exact_acc_def)
  moreover have "[''HELLO_SOCKET''] \<in> set (heard_from 0 worker_topics (publication small_config 1 1))"
    by (simp add: heard_from_def worker_hears)
  moreover have "inbox wrk_world Syncclient = [Delivered [] False]" "trace wrk_world = []"
    by (simp_all add: wrk_world_def)
  moreover have "api_ok (wrk_world\<lparr>inbox := f\<rparr>)" for f by (simp add: wrk_world_def api_ok_serving)
  ultimately show ?thesis
    unfolding process_ready_def small_process_def
    by (simp add: small_clients_end) (intro exI[of _ 0], simp)
qed

lemma small_process_clients: "process_clients small_process = [(small_end, [2])]"
  by (simp add: process_clients_def small_process_def)

lemma small_process_pushes: "process_pushes exact_acc small_process = [result_message exact_acc small_end]"
  using process_pushes_results[OF small_process_ready small_config_ok]
  by (simp add: small_process_clients)

definition small_listener :: listener where
  "small_listener = ([''listener''], 0, \<lparr>inbox = (\<lambda>n. case n of
       Subscriber \<Rightarrow> concat (map deliver (heard_from 0 listener_topics (publication small_config 1 1 @ [[''END'']])))
     | Syncclient \<Rightarrow> [Delivered [] False]
     | Sink \<Rightarrow> []),
     api = serving_api, live = (\<lambda>n. False), trace = [], waits = [Exited 11 0], launches = (\<lambda>c. True), children = []\<rparr>,
     [Exited 11 0])"

lemma small_listener_ready: "listener_ready small_config (publication small_config 1 1) small_listener"
proof -
  have "[''HELLO_LISTENER''] \<in> set (heard_from 0 listener_topics (publication small_config 1 1))"
    by (simp add: heard_from_def listener_hears)
  then show ?thesis
    unfolding listener_ready_def small_listener_def
    by (simp add: api_ok_serving reaps_def) (intro exI[of _ 0], simp)
qed

lemma small_listener_exits: "listener_exits small_listener = [0]"
  by (simp add: listener_exits_def small_listener_def)

lemma small_listener_pushes: "listener_pushes small_listener = [finished_message 0]"
  using listener_pushes_exits[OF small_listener_ready]
  by (simp add: small_listener_exits int_range_def int_min_def int_max_def)

end
