(* ===== verification/Spec2Isabelle.thy ===== *)
theory Spec2Isabelle
  imports Controller_Props Listener_Props Worker_Props Base_Client_Props Results Mobile_Client Mobile_Props
    Ssl_Props Telemetry_Client Monitor Zhelpers_Extra System
begin

text \<open>
  Verification of ws-perftester, a distributed load generator for WebSocket servers.

  The program. A controller (controller.cpp) coordinates machines; on each runs a listener
  (listener.cpp) that starts client processes (listener-websocket.cpp); each process opens many
  WebSocket connections (clients/base-client.hpp and the classes derived from it), measures the
  latency of echoes and pushes one line of statistics per connection to the controller, which
  aggregates them. The parts talk over ZeroMQ: the controller publishes requests and hellos,
  answers synchronisation requests on two reply sockets (a barrier for listeners, one for
  processes) and pulls results from a sink. The repository also holds a copy of the C++ binding of
  ZeroMQ (zmq.hpp), helpers over it (zhelpers.hpp), a client with two connections
  (clients/mobile-signaling-client.hpp, plain-client.cpp) and a TLS echo client and server
  (utils/ssl-client.cpp, utils/ssl-server.cpp).

  How it is modelled. The ZeroMQ programs are state-passing programs over a world
  (\<open>('w, 'a) prog\<close> of Prelude): an outcome is a value, a fault (an uncaught exception, a failed
  assertion, the use of an indeterminate value) or being stuck in a call that never returns, with
  the world at that moment. Loops that receive are recursive functions that terminate because
  each round takes an answer from an inbox; a run with no answer left is stuck, never silently
  finished, so the theorems that a program returns say that enough answers arrive. What runs on
  callbacks and threads is a step relation, its runs the reflexive transitive closure; Machines
  states in locales what an invariant, a rank and a simulation give, and each component
  interprets them. No bound or fuel is used anywhere.

  What is a parameter. The C library of ZeroMQ is the field \<open>api\<close> of the world, an arbitrary
  function of everything that happened before, and \<open>inbox\<close>, the answers of the receive calls;
  \<open>api_ok\<close> says that every call is served. Floating point is an arbitrary rounding \<open>fp\<close> and an
  arbitrary accumulator \<open>acc\<close> (Boost); \<open>waitpid\<close>, the launch of a process, the websocketpp
  endpoint, the completions of Boost.Asio, the answers of OpenSSL, clocks and random draws are
  inputs. Witnesses instantiate all of them.

  The theories, in the order of the code:
  \<^item> Prelude, Machines: outcomes, programs and their laws; step relations.
  \<^item> Streams, Doubles: \<open>std::to_string\<close>, \<open>operator>>\<close> and \<open>operator<<\<close> for int, bool, string and
    double; what is printed with six digits is read back within five parts in a million.
  \<^item> Zmq, Zhelpers: operations of \<open>socket_t\<close> with their error branches, \<open>s_send\<close>, \<open>s_sendmore\<close>,
    \<open>s_recv\<close>; \<open>emits\<close> bounds what a program adds to the trace, whatever the library answers.
  \<^item> Zmq_Handles, Monitor: the life of contexts, sockets and messages under construction, move,
    assignment and destruction, and the loop of \<open>monitor_t\<close>. Handles are destroyed exactly once;
    messages too, unless \<open>rebuild\<close> runs out of memory.
  \<^item> Zhelpers_Extra: dumping a message, identities, version check, clock, sleep, signals.
  \<^item> Barrier: the synchronisation both barriers share, as the locale \<open>sync_barrier\<close>, interpreted on
    \<open>sync_slaves\<close> and \<open>sync_processes\<close> in Controller.
  \<^item> Controller, Controller_Props: the whole of controller.cpp. Requests are broadcast only after
    the barriers, reply sockets alternate, the collection of frames implements a tally of
    messages, and an iteration completes with exactly the expected publications.
  \<^item> Listener, Listener_Props: listener.cpp. Exactly the children asked for are started and each end
    is reported once; fewer exits than children, or a failed launch, and what follows.
  \<^item> Base_Client, Base_Client_Props, Client_Views: the class \<open>base_client\<close> as two interleaved
    threads. Bounds on messages, truthful ends, liveness and the ways it blocks; the derived
    clients are seen through the state of the base class.
  \<^item> Listener_Websocket, Worker_Props: the client process. It decodes the request as published and
    reports every client once, or, on some errors, none.
  \<^item> Results: the line of statistics from a client to the report.
  \<^item> Mobile_Client, Mobile_Props, Telemetry_Client: the derived clients refine the base client; what
    the mobile client adds and what it never notices.
  \<^item> Ssl_Client, Ssl_Server, Ssl_Props: the TLS echo programs as chains of asynchronous handlers.
    The client ends, the server neither uses a deleted session nor stops accepting, it echoes,
    and the two together return the request.
  \<^item> System and this theory: controller, listeners and processes composed over publications,
    subscriptions and the sink.

  Not modelled: console output of the controller, listener and process other than what they
  report, log files and pauses (no state of the program depends on them); \<open>begin_read\<close> and
  \<open>end_read\<close> of listener.cpp, which nothing calls; \<open>s_console\<close> and the Windows branches of
  zhelpers.hpp; \<open>version\<close>, \<open>message_t::more\<close> and the conversion operators of zmq.hpp, which pass on
  a call; the event layout of ZeroMQ before 3.3; signals and threads below the granularity of the
  regions named in Base_Client; memory and transport inside the libraries; build scripts and
  deployment.
\<close>

section \<open>The system\<close>


text \<open>
  C35: results that are late are lost. The results of a process and the report of its end reach the
  controller over different connections, and nothing orders them. When the ends of all processes
  arrive first, the collection returns at once: it has counted no connection at all, and the
  results stay in the queue, where the next iteration will take them for its own.
\<close>

theorem late_results_lost:
  assumes "inbox w Receiver = concat (map deliver (map finished_message sts @ ms))" "int (length sts) = n" "0 < n"
  shows "\<exists>t w'. collect F c n empty_tally w = Ret t w' \<and> clientsFinished t + clientsDied t = n
    \<and> connectionsSucceeded t = 0 \<and> connectionsDied t = 0 \<and> resultsReceived t = 0
    \<and> inbox w' Receiver = Delivered [] False # concat (map deliver ms)"
proof -
  have "inbox w Receiver = [] @ concat (map frames (map Finished_msg (map to_string sts))) @ concat (map deliver ms)"
    using assms(1) deliver_finished[of sts] by simp
  moreover have "clientsFinished empty_tally + clientsDied empty_tally + int (length (map to_string sts)) = n" "sts \<noteq> []"
    using assms(2,3) by (auto simp: empty_tally_def)
  ultimately show ?thesis using collect_ends[of w "[]" "map to_string sts" "concat (map deliver ms)" empty_tally n F c]
    by (auto simp: empty_tally_def)
qed


theorem late_results_lost_witness:
  "\<exists>t w'. collect exact_fp small_config 1 empty_tally
       ((small_world [])\<lparr>inbox := (\<lambda>n. concat (map deliver (map finished_message [0] @ [result_message exact_acc small_end])))\<rparr>) = Ret t w'
     \<and> connectionsSucceeded t = 0 \<and> resultsReceived t = 0"
  using late_results_lost[of "(small_world [])\<lparr>inbox := (\<lambda>n. concat (map deliver (map finished_message [0] @ [result_message exact_acc small_end])))\<rparr>"
      "[0]" "[result_message exact_acc small_end]" 1 exact_fp small_config]
  by fastforce

end
